theory Spec2Isabelle
  imports Main
begin

section \<open>The bulk email dispatcher of NewsLetterManager\<close>

text \<open>
  A shallow embedding of the class \<^verbatim>\<open>EmailService\<close> (rotation of SMTP servers under
  daily quotas, the cache of transports, the dispatch loop \<^verbatim>\<open>sendBulkEmails\<close>) and of
  the three operations of \<^verbatim>\<open>MongoDBStorage\<close> it calls (\<^verbatim>\<open>getSmtpConfigs\<close>,
  \<^verbatim>\<open>getSmtpDailyCount\<close>, \<^verbatim>\<open>logEmail\<close>).

  The service object, the two collections it reads and writes, the clock and a trace of
  the external calls form one record, \<open>world\<close>, passed through every operation.
  A JavaScript exception is a value: an operation returns \<open>Inl (exception, world)\<close>
  when it throws and \<open>Inr (value, world)\<close> when it returns. The rotation loop is a
  \<^verbatim>\<open>do ... while (true)\<close>; it is a partial function into \<open>option\<close>, so that not
  returning is the value \<open>None\<close>, and every operation built on it is option valued too.
  What the outside does while the loop of \<^verbatim>\<open>sendBulkEmails\<close> awaits a call (how long
  the call takes, whether it rejects, what other writers insert) is a second record,
  \<open>env\<close>.
\<close>

subsection \<open>Data\<close>

text \<open>
  \<^verbatim>\<open>ISmtpConfig\<close>, with the fields the dispatcher reads. \<open>smtp_id\<close> is
  \<^verbatim>\<open>_id.toString()\<close>. \<^verbatim>\<open>dailyLimit\<close> is a JavaScript number; it is an integer here.
\<close>

record smtpConfig =
  smtp_id :: string
  host :: string
  port :: nat
  username :: string
  password :: string
  fromEmail :: string
  fromName :: string
  isDefault :: bool
  dailyLimit :: int

text \<open>One element of the \<^verbatim>\<open>emails\<close> argument of \<^verbatim>\<open>sendBulkEmails\<close>.\<close>

record email =
  email_subscriberId :: string
  email_to :: string
  email_subject :: string
  email_html :: string

text \<open>
  \<^verbatim>\<open>IEmailLog\<close>: the argument of \<^verbatim>\<open>logEmail\<close> is the document without
  \<^verbatim>\<open>sentAt\<close>; the stored document extends it with the time of the write.
\<close>

record insertLog =
  smtpConfigId :: string
  campaignId :: string
  subscriberId :: string
  status :: string
  error :: "string option"

record emailLog = insertLog +
  sentAt :: nat

text \<open>
  What \<^verbatim>\<open>nodemailer.createTransport\<close> is given, and \<open>serial\<close>, the identity of the
  object it returns (two calls never return the same object).
\<close>

record transporter =
  serial :: nat
  t_host :: string
  t_port :: nat
  t_secure :: bool
  t_user :: string
  t_pass :: string

text \<open>The argument of \<^verbatim>\<open>transport.sendMail\<close>.\<close>

record mail =
  mail_from :: string
  mail_to :: string
  mail_subject :: string
  mail_html :: string

text \<open>
  A thrown value: an \<^verbatim>\<open>Error\<close> object with its message, or any other value with its
  \<^verbatim>\<open>String(...)\<close> rendering. \<open>errorText\<close> is the expression
  \<^verbatim>\<open>error instanceof Error ? error.message : String(error)\<close>.
\<close>

datatype js_exn = JsError string | JsValue string

fun errorText :: "js_exn \<Rightarrow> string" where
  "errorText (JsError message) = message"
| "errorText (JsValue rendering) = rendering"

definition NoServersConfigured :: js_exn where
  "NoServersConfigured = JsError ''No SMTP configurations available''"

definition AllQuotasExhausted :: js_exn where
  "AllQuotasExhausted = JsError ''Daily sending limit reached for all SMTP configurations''"

text \<open>
  Reading \<^verbatim>\<open>config._id\<close> when \<^verbatim>\<open>smtpQueue[currentSmtpIndex]\<close> is
  \<^verbatim>\<open>undefined\<close> throws a \<^verbatim>\<open>TypeError\<close>; \<open>errorText\<close> of it is the \<^verbatim>\<open>message\<close>
  of that error as V8 words it.
\<close>

definition UndefinedConfig :: js_exn where
  "UndefinedConfig =
     JsError (''Cannot read properties of undefined (reading '' @ [CHR 0x27] @ ''_id'' @
              [CHR 0x27] @ '')'')"

text \<open>
  The state. \<open>transports\<close>, \<open>currentSmtpIndex\<close> and \<open>smtpQueue\<close> are the fields of
  \<^verbatim>\<open>EmailService\<close>; \<open>smtpConfigs\<close> and \<open>emailLogs\<close> are the two collections.
  \<open>clock\<close> is the time in milliseconds, the value a \<^verbatim>\<open>new Date()\<close> holds, and
  \<open>localMidnight\<close> is the time zone of the host as \<^verbatim>\<open>setHours(0, 0, 0, 0)\<close> uses it:
  it maps a time to the time at which the local day of that time began (a local day has
  the length the zone gives it, 24 hours or not); it is a parameter of the model.
  The other fields record the external calls made so far: transports created (with the
  key they were cached under), identifiers passed to \<^verbatim>\<open>getSmtpDailyCount\<close>, the number
  of calls \<^verbatim>\<open>sendBulkEmails\<close> has awaited that read the database (the refresh that
  opens it and every call of \<^verbatim>\<open>getNextAvailableSmtp\<close> of its loop), messages handed
  to \<^verbatim>\<open>sendMail\<close> (every call, whether it then resolves or rejects), the number of
  calls of \<^verbatim>\<open>logEmail\<close>, and the arguments of \<^verbatim>\<open>delay\<close>.
\<close>

record world =
  transports :: "string \<Rightarrow> transporter option"
  currentSmtpIndex :: nat
  smtpQueue :: "smtpConfig list"
  smtpConfigs :: "smtpConfig list"
  emailLogs :: "emailLog list"
  clock :: nat
  localMidnight :: "nat \<Rightarrow> nat"
  createdTransports :: "(string \<times> transporter) list"
  countQueries :: "string list"
  readCalls :: nat
  sendMailCalls :: "(transporter \<times> mail) list"
  logEmailCalls :: nat
  delays :: "nat list"

text \<open>
  The environment of one run, fixed in advance. Every call the loop of
  \<^verbatim>\<open>sendBulkEmails\<close> awaits takes the time the environment gives it, so that the clock
  read by a later \<^verbatim>\<open>new Date()\<close> has moved:

  \<^item> for the \<open>k\<close>-th call of \<^verbatim>\<open>sendMail\<close>: whether it rejects and with what, the time
    it takes, and the documents that other writers of the shared \<^verbatim>\<open>EmailLog\<close>
    collection (another process, another batch) insert while it is in flight;
  \<^item> for the \<open>k\<close>-th call of \<^verbatim>\<open>logEmail\<close>: whether it rejects and with what, and the
    time it takes;
  \<^item> for the \<open>k\<close>-th call that reads the database (the \<^verbatim>\<open>refreshSmtpQueue\<close> that
    opens \<^verbatim>\<open>sendBulkEmails\<close>, and every \<^verbatim>\<open>getNextAvailableSmtp\<close> of its loop):
    whether its first read rejects and with what, and the time the call takes;
  \<^item> for the \<open>k\<close>-th call of \<^verbatim>\<open>delay\<close>: how much later than asked the timer fires.

  The time given for a call includes the time of the statements that run between it and
  the next awaited call, so that the clock is right wherever the code reads it: at the
  start of a call of \<^verbatim>\<open>getNextAvailableSmtp\<close> and at a call of \<^verbatim>\<open>logEmail\<close>.
  A rejected \<^verbatim>\<open>logEmail\<close> has written nothing. The model leaves out: a read that
  rejects after the first read of a call of \<^verbatim>\<open>getNextAvailableSmtp\<close>; documents of
  other writers that arrive at another moment than during a send; changes of the stored
  configurations during a batch. Within one call of \<^verbatim>\<open>getNextAvailableSmtp\<close> every
  count is taken at the time the call starts; for a queue of one server, where a call
  makes one query, that is the time of the query.
\<close>

record env =
  sendMailResult :: "nat \<Rightarrow> js_exn option"
  logEmailResult :: "nat \<Rightarrow> js_exn option"
  foreignWrites :: "nat \<Rightarrow> emailLog list"
  readResult :: "nat \<Rightarrow> js_exn option"
  readTime :: "nat \<Rightarrow> nat"
  sendMailTime :: "nat \<Rightarrow> nat"
  logEmailTime :: "nat \<Rightarrow> nat"
  timerLag :: "nat \<Rightarrow> nat"

type_synonym 'a result = "(js_exn \<times> world) + ('a \<times> world)"

text \<open>\<^verbatim>\<open>new EmailService()\<close> over given collections, in a given time zone, at a given time.\<close>

definition newEmailService ::
  "smtpConfig list \<Rightarrow> emailLog list \<Rightarrow> (nat \<Rightarrow> nat) \<Rightarrow> nat \<Rightarrow> world" where
  "newEmailService configs logs zone now =
     \<lparr>transports = Map.empty, currentSmtpIndex = 0, smtpQueue = [],
      smtpConfigs = configs, emailLogs = logs, clock = now, localMidnight = zone,
      createdTransports = [], countQueries = [], readCalls = 0, sendMailCalls = [],
      logEmailCalls = 0, delays = []\<rparr>"

subsection \<open>Storage\<close>

definition getSmtpConfigs :: "world \<Rightarrow> smtpConfig list" where
  "getSmtpConfigs w = smtpConfigs w"

text \<open>
  \<^verbatim>\<open>const today = new Date(); today.setHours(0, 0, 0, 0)\<close>: the beginning of the local
  day of the time of the call.
\<close>

definition startOfDay :: "world \<Rightarrow> nat" where
  "startOfDay w = localMidnight w (clock w)"

text \<open>
  \<^verbatim>\<open>EmailLog.countDocuments({smtpConfigId, sentAt: {$gte: today}, status: "sent"})\<close>.
\<close>

definition countDocuments :: "string \<Rightarrow> nat \<Rightarrow> emailLog list \<Rightarrow> nat" where
  "countDocuments cfgId today logs =
     length (filter (\<lambda>l. smtpConfigId l = cfgId \<and> today \<le> sentAt l \<and> status l = ''sent'') logs)"

definition getSmtpDailyCount :: "string \<Rightarrow> world \<Rightarrow> nat \<times> world" where
  "getSmtpDailyCount cfgId w =
     (let today = startOfDay w
      in (countDocuments cfgId today (emailLogs w),
          w\<lparr>countQueries := countQueries w @ [cfgId]\<rparr>))"

text \<open>
  \<^verbatim>\<open>logEmail\<close>: \<^verbatim>\<open>sentAt\<close> is the time at which the call is made; the call resolves or
  rejects later, as the environment says.
\<close>

definition logEmail :: "env \<Rightarrow> insertLog \<Rightarrow> world \<Rightarrow> unit result" where
  "logEmail e doc w =
     (let k = logEmailCalls w;
          w1 = w\<lparr>logEmailCalls := k + 1, clock := clock w + logEmailTime e k\<rparr>
      in case logEmailResult e k of
           Some x \<Rightarrow> Inl (x, w1)
         | None \<Rightarrow>
             Inr ((), w1\<lparr>emailLogs := emailLogs w1 @
               [\<lparr>smtpConfigId = smtpConfigId doc, campaignId = campaignId doc,
                 subscriberId = subscriberId doc, status = status doc, error = error doc,
                 sentAt = clock w\<rparr>]\<rparr>))"

subsection \<open>The email service\<close>

definition RATE_LIMIT_DELAY :: nat where
  "RATE_LIMIT_DELAY = 2000"

definition createTransport :: "nat \<Rightarrow> smtpConfig \<Rightarrow> transporter" where
  "createTransport n config =
     \<lparr>serial = n, t_host = host config, t_port = port config,
      t_secure = (port config = 465), t_user = username config, t_pass = password config\<rparr>"

definition getTransport :: "smtpConfig \<Rightarrow> world \<Rightarrow> transporter \<times> world" where
  "getTransport config w =
     (let w1 = (if transports w (smtp_id config) = None
                then let transport = createTransport (length (createdTransports w)) config
                     in w\<lparr>transports := (transports w)(smtp_id config \<mapsto> transport),
                          createdTransports :=
                            createdTransports w @ [(smtp_id config, transport)]\<rparr>
                else w)
      in (the (transports w1 (smtp_id config)), w1))"

text \<open>
  \<^verbatim>\<open>delay(ms)\<close>: a timer of \<open>ms\<close> milliseconds, which fires after that time or later.
\<close>

definition delay :: "env \<Rightarrow> nat \<Rightarrow> world \<Rightarrow> world" where
  "delay e ms w =
     w\<lparr>clock := clock w + ms + timerLag e (length (delays w)), delays := delays w @ [ms]\<rparr>"

definition refreshSmtpQueue :: "world \<Rightarrow> world" where
  "refreshSmtpQueue w =
     (let configs = getSmtpConfigs w
      in (case find isDefault configs of
            Some defaultConfig \<Rightarrow>
              w\<lparr>smtpQueue := [defaultConfig] @ filter (\<lambda>c. \<not> isDefault c) configs\<rparr>
          | None \<Rightarrow> w\<lparr>smtpQueue := configs\<rparr>)
         \<lparr>currentSmtpIndex := 0\<rparr>)"

text \<open>
  The loop of \<^verbatim>\<open>getNextAvailableSmtp\<close>, entered with \<open>startIndex\<close> equal to the
  cursor. The cursor is a field of the service and is changed by the loop.
\<close>

partial_function (option) smtpScan :: "nat \<Rightarrow> world \<Rightarrow> smtpConfig result option" where
  "smtpScan startIndex w =
     (if currentSmtpIndex w < length (smtpQueue w) then
        (let config = smtpQueue w ! currentSmtpIndex w;
             counted = getSmtpDailyCount (smtp_id config) w;
             w1 = snd counted
         in if int (fst counted) < dailyLimit config then Some (Inr (config, w1))
            else
              (let w2 = w1\<lparr>currentSmtpIndex :=
                            (currentSmtpIndex w1 + 1) mod length (smtpQueue w1)\<rparr>
               in if currentSmtpIndex w2 = startIndex
                  then Some (Inl (AllQuotasExhausted, w2))
                  else smtpScan startIndex w2))
      else Some (Inl (UndefinedConfig, w)))"

declare smtpScan.simps [code]

text \<open>
  \<^verbatim>\<open>getNextAvailableSmtp\<close> on the collections and at the time of a state: the method as
  one computation, the database answering every read.
\<close>

definition getNextAvailableSmtp :: "world \<Rightarrow> smtpConfig result option" where
  "getNextAvailableSmtp w =
     (let w1 = (if smtpQueue w = [] then refreshSmtpQueue w else w)
      in if smtpQueue w1 = [] then Some (Inl (NoServersConfigured, w1))
         else smtpScan (currentSmtpIndex w1) w1)"

text \<open>
  \<^verbatim>\<open>await this.getNextAvailableSmtp()\<close> in the loop of \<^verbatim>\<open>sendBulkEmails\<close>. The
  first thing the method awaits is a read of the database: \<^verbatim>\<open>getSmtpConfigs\<close> when the
  queue is empty, the count query for the server at the cursor otherwise (with a cursor
  outside a queue that is not empty, the method throws before any read). The environment
  says whether that read rejects; the rejection leaves the method, the service unchanged.
  Whether the call returns or throws, the loop goes on after the time the call took.
\<close>

definition readsFirst :: "world \<Rightarrow> bool" where
  "readsFirst w \<longleftrightarrow> smtpQueue w = [] \<or> currentSmtpIndex w < length (smtpQueue w)"

definition answered :: "env \<Rightarrow> world \<Rightarrow> world" where
  "answered e w =
     w\<lparr>clock := clock w + readTime e (readCalls w), readCalls := readCalls w + 1\<rparr>"

definition awaitNextAvailableSmtp :: "env \<Rightarrow> world \<Rightarrow> smtpConfig result option" where
  "awaitNextAvailableSmtp e w =
     (case (if readsFirst w then readResult e (readCalls w) else None) of
        Some x \<Rightarrow> Some (Inl (x, answered e w))
      | None \<Rightarrow>
          (case getNextAvailableSmtp w of
             None \<Rightarrow> None
           | Some (Inl (x, w1)) \<Rightarrow> Some (Inl (x, answered e w1))
           | Some (Inr (config, w1)) \<Rightarrow> Some (Inr (config, answered e w1))))"

text \<open>
  \<^verbatim>\<open>transport.sendMail\<close>: the call is recorded, the other writers' documents of this
  call arrive in the collection, the time of the call passes, and the call resolves or
  rejects as the environment says.
\<close>

definition sendMail :: "env \<Rightarrow> transporter \<Rightarrow> mail \<Rightarrow> world \<Rightarrow> unit result" where
  "sendMail e transport m w =
     (let k = length (sendMailCalls w);
          w1 = w\<lparr>sendMailCalls := sendMailCalls w @ [(transport, m)],
                 emailLogs := emailLogs w @ foreignWrites e k,
                 clock := clock w + sendMailTime e k\<rparr>
      in case sendMailResult e k of
           Some x \<Rightarrow> Inl (x, w1)
         | None \<Rightarrow> Inr ((), w1))"

text \<open>The \<^verbatim>\<open>try\<close> block of the loop body of \<^verbatim>\<open>sendBulkEmails\<close>.\<close>

definition trySend :: "env \<Rightarrow> string \<Rightarrow> email \<Rightarrow> world \<Rightarrow> unit result option" where
  "trySend e campaign em w =
     (case awaitNextAvailableSmtp e w of
        None \<Rightarrow> None
      | Some (Inl thrown) \<Rightarrow> Some (Inl thrown)
      | Some (Inr (smtpCfg, w1)) \<Rightarrow>
          (let (transport, w2) = getTransport smtpCfg w1
           in case sendMail e transport
                     \<lparr>mail_from = [CHR 0x22] @ fromName smtpCfg @ [CHR 0x22] @ '' <'' @
                                   fromEmail smtpCfg @ ''>'',
                      mail_to = email_to em, mail_subject = email_subject em,
                      mail_html = email_html em\<rparr> w2 of
                Inl thrown \<Rightarrow> Some (Inl thrown)
              | Inr (_, w3) \<Rightarrow>
                  (case logEmail e
                          \<lparr>smtpConfigId = smtp_id smtpCfg, campaignId = campaign,
                           subscriberId = email_subscriberId em, status = ''sent'',
                           error = None\<rparr> w3 of
                     Inl thrown \<Rightarrow> Some (Inl thrown)
                   | Inr (_, w4) \<Rightarrow> Some (Inr ((), delay e RATE_LIMIT_DELAY w4)))))"

text \<open>The \<^verbatim>\<open>catch\<close> block, given the value caught.\<close>

definition catchError :: "env \<Rightarrow> string \<Rightarrow> email \<Rightarrow> js_exn \<Rightarrow> world \<Rightarrow> unit result option" where
  "catchError e campaign em caught w =
     (case awaitNextAvailableSmtp e w of
        None \<Rightarrow> None
      | Some (Inl thrown) \<Rightarrow> Some (Inl thrown)
      | Some (Inr (smtpCfg, w1)) \<Rightarrow>
          (case logEmail e
                  \<lparr>smtpConfigId = smtp_id smtpCfg, campaignId = campaign,
                   subscriberId = email_subscriberId em, status = ''failed'',
                   error = Some (errorText caught)\<rparr> w1 of
             Inl thrown \<Rightarrow> Some (Inl thrown)
           | Inr (_, w2) \<Rightarrow> Some (Inr ((), delay e (RATE_LIMIT_DELAY * 2) w2))))"

text \<open>One iteration of the \<^verbatim>\<open>for\<close> loop: the \<^verbatim>\<open>try\<close> block and its handler.\<close>

definition processEmail :: "env \<Rightarrow> string \<Rightarrow> email \<Rightarrow> world \<Rightarrow> unit result option" where
  "processEmail e campaign em w =
     (case trySend e campaign em w of
        None \<Rightarrow> None
      | Some (Inl (caught, w1)) \<Rightarrow> catchError e campaign em caught w1
      | Some (Inr done) \<Rightarrow> Some (Inr done))"

fun sendLoop :: "env \<Rightarrow> string \<Rightarrow> email list \<Rightarrow> world \<Rightarrow> unit result option" where
  "sendLoop e campaign [] w = Some (Inr ((), w))"
| "sendLoop e campaign (em # emails) w =
     (case processEmail e campaign em w of
        None \<Rightarrow> None
      | Some (Inl thrown) \<Rightarrow> Some (Inl thrown)
      | Some (Inr (_, w1)) \<Rightarrow> sendLoop e campaign emails w1)"

text \<open>
  \<^verbatim>\<open>sendBulkEmails\<close>: \<^verbatim>\<open>await this.refreshSmtpQueue()\<close>, whose read of the
  configurations takes its time and may reject (outside any \<^verbatim>\<open>try\<close>), then the loop.
\<close>

definition sendBulkEmails :: "env \<Rightarrow> string \<Rightarrow> email list \<Rightarrow> world \<Rightarrow> unit result option" where
  "sendBulkEmails e campaign emails w =
     (case readResult e (readCalls w) of
        Some x \<Rightarrow> Some (Inl (x, answered e w))
      | None \<Rightarrow> sendLoop e campaign emails (answered e (refreshSmtpQueue w)))"

subsection \<open>Notions used in the statements\<close>

text \<open>
  Today's count of a server as \<^verbatim>\<open>getSmtpDailyCount\<close> returns it in a state, and
  the test \<^verbatim>\<open>count < config.dailyLimit\<close> of the rotation loop.
\<close>

definition todayCount :: "world \<Rightarrow> smtpConfig \<Rightarrow> nat" where
  "todayCount w c = fst (getSmtpDailyCount (smtp_id c) w)"

definition underQuota :: "world \<Rightarrow> smtpConfig \<Rightarrow> bool" where
  "underQuota w c \<longleftrightarrow> int (todayCount w c) < dailyLimit c"

text \<open>
  The \<open>k\<close>-th position of a scan that starts at the cursor; the state after \<open>k\<close>
  positions were examined and found exhausted; the state in which the scan returns the
  server at position \<open>k\<close>; and the state in which it gives up, every position examined.
  They differ from the state before the scan in the cursor and in the record of the
  count queries only.
\<close>

definition scanPosition :: "world \<Rightarrow> nat \<Rightarrow> nat" where
  "scanPosition w k = (currentSmtpIndex w + k) mod length (smtpQueue w)"

definition scanned :: "world \<Rightarrow> nat \<Rightarrow> world" where
  "scanned w k =
     w\<lparr>countQueries := countQueries w @ map (\<lambda>i. smtp_id (smtpQueue w ! scanPosition w i)) [0..<k],
       currentSmtpIndex := scanPosition w k\<rparr>"

definition selected :: "world \<Rightarrow> nat \<Rightarrow> world" where
  "selected w k =
     w\<lparr>countQueries := countQueries w @
          map (\<lambda>i. smtp_id (smtpQueue w ! scanPosition w i)) [0..<Suc k],
       currentSmtpIndex := scanPosition w k\<rparr>"

definition exhausted :: "world \<Rightarrow> world" where
  "exhausted w =
     w\<lparr>countQueries := countQueries w @
          map (\<lambda>i. smtp_id (smtpQueue w ! scanPosition w i)) [0..<length (smtpQueue w)]\<rparr>"

text \<open>
  The state in which the scan starts: \<^verbatim>\<open>getNextAvailableSmtp\<close> refreshes an empty
  queue first. \<open>rotatedOnly w w'\<close>: the two states agree on everything but the queue,
  the cursor and the record of the count queries, so nothing was sent, logged, cached or
  waited for between them, and no time passed. \<open>selectionOnly e w w'\<close>: the same, but
  for the time that the call awaited in \<open>w\<close> took (\<^verbatim>\<open>getNextAvailableSmtp\<close>, or the
  refresh that opens a batch). \<open>cursorOk\<close> is the invariant of the rotation queue.
\<close>

definition entered :: "world \<Rightarrow> world" where
  "entered w = (if smtpQueue w = [] then refreshSmtpQueue w else w)"

definition rotatedOnly :: "world \<Rightarrow> world \<Rightarrow> bool" where
  "rotatedOnly w w' \<longleftrightarrow>
     transports w' = transports w \<and> smtpConfigs w' = smtpConfigs w \<and>
     emailLogs w' = emailLogs w \<and> clock w' = clock w \<and>
     localMidnight w' = localMidnight w \<and> readCalls w' = readCalls w \<and>
     createdTransports w' = createdTransports w \<and> sendMailCalls w' = sendMailCalls w \<and>
     logEmailCalls w' = logEmailCalls w \<and> delays w' = delays w"

definition selectionOnly :: "env \<Rightarrow> world \<Rightarrow> world \<Rightarrow> bool" where
  "selectionOnly e w w' \<longleftrightarrow>
     transports w' = transports w \<and> smtpConfigs w' = smtpConfigs w \<and>
     emailLogs w' = emailLogs w \<and> clock w' = clock w + readTime e (readCalls w) \<and>
     localMidnight w' = localMidnight w \<and> readCalls w' = readCalls w + 1 \<and>
     createdTransports w' = createdTransports w \<and> sendMailCalls w' = sendMailCalls w \<and>
     logEmailCalls w' = logEmailCalls w \<and> delays w' = delays w"

definition cursorOk :: "world \<Rightarrow> bool" where
  "cursorOk w \<longleftrightarrow> smtpQueue w = [] \<and> currentSmtpIndex w = 0 \<or>
                currentSmtpIndex w < length (smtpQueue w)"

text \<open>
  The state of an operation's result, thrown or returned, and what a caller sees of a
  finished run: the value thrown, the log, the calls of \<^verbatim>\<open>sendMail\<close>, the delays.
\<close>

definition worldOf :: "'a result \<Rightarrow> world" where
  "worldOf r = (case r of Inl (_, w) \<Rightarrow> w | Inr (_, w) \<Rightarrow> w)"

definition thrownBy :: "'a result option \<Rightarrow> js_exn option" where
  "thrownBy r = (case r of Some (Inl (x, _)) \<Rightarrow> Some x | _ \<Rightarrow> None)"

definition finalLogs :: "'a result option \<Rightarrow> emailLog list" where
  "finalLogs r = (case r of Some res \<Rightarrow> emailLogs (worldOf res) | None \<Rightarrow> [])"

definition finalSends :: "'a result option \<Rightarrow> (transporter \<times> mail) list" where
  "finalSends r = (case r of Some res \<Rightarrow> sendMailCalls (worldOf res) | None \<Rightarrow> [])"

definition finalDelays :: "'a result option \<Rightarrow> nat list" where
  "finalDelays r = (case r of Some res \<Rightarrow> delays (worldOf res) | None \<Rightarrow> [])"

text \<open>
  The steps of one task, named: the message built from a server and a task; the state
  after the call of \<^verbatim>\<open>sendMail\<close> (which is the same whether the call resolves or
  rejects); the two documents \<^verbatim>\<open>sendBulkEmails\<close> passes to \<^verbatim>\<open>logEmail\<close>; a
  document as stored at a time; the state after a write that succeeded and after one that
  was rejected.
\<close>

definition envelope :: "smtpConfig \<Rightarrow> email \<Rightarrow> mail" where
  "envelope smtpCfg em =
     \<lparr>mail_from = [CHR 0x22] @ fromName smtpCfg @ [CHR 0x22] @ '' <'' @ fromEmail smtpCfg @ ''>'',
      mail_to = email_to em, mail_subject = email_subject em, mail_html = email_html em\<rparr>"

definition handed :: "env \<Rightarrow> transporter \<Rightarrow> mail \<Rightarrow> world \<Rightarrow> world" where
  "handed e transport m w =
     w\<lparr>sendMailCalls := sendMailCalls w @ [(transport, m)],
       emailLogs := emailLogs w @ foreignWrites e (length (sendMailCalls w)),
       clock := clock w + sendMailTime e (length (sendMailCalls w))\<rparr>"

definition attempted :: "env \<Rightarrow> smtpConfig \<Rightarrow> email \<Rightarrow> world \<Rightarrow> world" where
  "attempted e smtpCfg em w =
     handed e (fst (getTransport smtpCfg w)) (envelope smtpCfg em) (snd (getTransport smtpCfg w))"

definition sentEntry :: "smtpConfig \<Rightarrow> string \<Rightarrow> email \<Rightarrow> insertLog" where
  "sentEntry smtpCfg campaign em =
     \<lparr>smtpConfigId = smtp_id smtpCfg, campaignId = campaign,
      subscriberId = email_subscriberId em, status = ''sent'', error = None\<rparr>"

definition failedEntry :: "smtpConfig \<Rightarrow> string \<Rightarrow> email \<Rightarrow> js_exn \<Rightarrow> insertLog" where
  "failedEntry smtpCfg campaign em caught =
     \<lparr>smtpConfigId = smtp_id smtpCfg, campaignId = campaign,
      subscriberId = email_subscriberId em, status = ''failed'',
      error = Some (errorText caught)\<rparr>"

definition stored :: "insertLog \<Rightarrow> nat \<Rightarrow> emailLog" where
  "stored doc t =
     \<lparr>smtpConfigId = smtpConfigId doc, campaignId = campaignId doc,
      subscriberId = subscriberId doc, status = status doc, error = error doc, sentAt = t\<rparr>"

definition logged :: "env \<Rightarrow> insertLog \<Rightarrow> world \<Rightarrow> world" where
  "logged e doc w =
     w\<lparr>logEmailCalls := logEmailCalls w + 1,
       clock := clock w + logEmailTime e (logEmailCalls w),
       emailLogs := emailLogs w @ [stored doc (clock w)]\<rparr>"

definition rejected :: "env \<Rightarrow> world \<Rightarrow> world" where
  "rejected e w =
     w\<lparr>logEmailCalls := logEmailCalls w + 1,
       clock := clock w + logEmailTime e (logEmailCalls w)\<rparr>"

text \<open>
  The state in which the loop of \<^verbatim>\<open>sendBulkEmails\<close> starts, the state after a task
  that the server at the cursor sent and logged, and the state after the \<^verbatim>\<open>catch\<close>
  block logged a failure against the server at the cursor.
\<close>

definition started :: "env \<Rightarrow> world \<Rightarrow> world" where
  "started e w = answered e (refreshSmtpQueue w)"

definition sentStep :: "env \<Rightarrow> string \<Rightarrow> email \<Rightarrow> world \<Rightarrow> world" where
  "sentStep e campaign em w =
     delay e RATE_LIMIT_DELAY
       (logged e (sentEntry (smtpQueue w ! currentSmtpIndex w) campaign em)
          (attempted e (smtpQueue w ! currentSmtpIndex w) em (answered e (selected w 0))))"

definition failedStep :: "env \<Rightarrow> string \<Rightarrow> email \<Rightarrow> js_exn \<Rightarrow> world \<Rightarrow> world" where
  "failedStep e campaign em caught w =
     delay e (RATE_LIMIT_DELAY * 2)
       (logged e (failedEntry (smtpQueue w ! currentSmtpIndex w) campaign em caught)
          (answered e (selected w 0)))"

text \<open>
  The \<^verbatim>\<open>try\<close> block of a task that starts in state \<open>w\<close> runs to its end: the
  selection returns a server, the send resolves and the write of the \<^verbatim>\<open>sent\<close> entry
  resolves. In every other case one of the three throws and the \<^verbatim>\<open>catch\<close> block
  handles the task.
\<close>

definition tryCompletes :: "env \<Rightarrow> world \<Rightarrow> bool" where
  "tryCompletes e w \<longleftrightarrow>
     thrownBy (awaitNextAvailableSmtp e w) = None \<and>
     sendMailResult e (length (sendMailCalls w)) = None \<and>
     logEmailResult e (logEmailCalls w) = None"

text \<open>
  A batch in which every task is sent and logged, from a state on. \<open>taskStart e w k\<close>
  is the time at which its \<open>k\<close>-th task starts, that is the time of the count query of
  that task when the queue has one server: each task before it took the time of its
  selection, of its send and of the write of its entry, then the pacing delay and the
  lag of the timer. \<open>sentDocs e s campaign w k emails\<close> are the entries the batch writes
  for the tasks \<open>emails\<close>, the first of them the \<open>k\<close>-th task of the batch, when server
  \<open>s\<close> sends them; \<open>batchDocs\<close> are the documents that arrive in the log meanwhile,
  those of the other writers among them. \<open>countsFor s\<close> is the filter of the count
  query without the date.
\<close>

fun taskStart :: "env \<Rightarrow> world \<Rightarrow> nat \<Rightarrow> nat" where
  "taskStart e w 0 = clock w"
| "taskStart e w (Suc k) =
     taskStart e w k + readTime e (readCalls w + k) +
     sendMailTime e (length (sendMailCalls w) + k) + logEmailTime e (logEmailCalls w + k) +
     RATE_LIMIT_DELAY + timerLag e (length (delays w) + k)"

definition sentDocAt :: "env \<Rightarrow> smtpConfig \<Rightarrow> string \<Rightarrow> world \<Rightarrow> nat \<Rightarrow> email \<Rightarrow> emailLog" where
  "sentDocAt e s campaign w k em =
     stored (sentEntry s campaign em)
       (taskStart e w k + readTime e (readCalls w + k) +
        sendMailTime e (length (sendMailCalls w) + k))"

fun sentDocs :: "env \<Rightarrow> smtpConfig \<Rightarrow> string \<Rightarrow> world \<Rightarrow> nat \<Rightarrow> email list \<Rightarrow> emailLog list" where
  "sentDocs e s campaign w k [] = []"
| "sentDocs e s campaign w k (em # emails) =
     sentDocAt e s campaign w k em # sentDocs e s campaign w (Suc k) emails"

fun batchDocs :: "env \<Rightarrow> smtpConfig \<Rightarrow> string \<Rightarrow> world \<Rightarrow> nat \<Rightarrow> email list \<Rightarrow> emailLog list" where
  "batchDocs e s campaign w k [] = []"
| "batchDocs e s campaign w k (em # emails) =
     foreignWrites e (length (sendMailCalls w) + k) @
     sentDocAt e s campaign w k em # batchDocs e s campaign w (Suc k) emails"

definition countsFor :: "smtpConfig \<Rightarrow> emailLog \<Rightarrow> bool" where
  "countsFor s l \<longleftrightarrow> smtpConfigId l = smtp_id s \<and> status l = ''sent''"

text \<open>
  The cache of transports agrees with the record of the transports created, one for each
  key; \<open>cacheKept w w'\<close>: every entry of the cache of \<open>w\<close> is still in the cache of
  \<open>w'\<close>, and the agreement is kept.
\<close>

definition cacheOk :: "world \<Rightarrow> bool" where
  "cacheOk w \<longleftrightarrow>
     distinct (map fst (createdTransports w)) \<and> map_of (createdTransports w) = transports w"

definition cacheKept :: "world \<Rightarrow> world \<Rightarrow> bool" where
  "cacheKept w w' \<longleftrightarrow> transports w \<subseteq>\<^sub>m transports w' \<and> (cacheOk w \<longrightarrow> cacheOk w')"

subsection \<open>Example values\<close>

text \<open>
  Servers, stored documents and tasks for the closed examples; a time zone whose days all
  have 24 hours, the first of them beginning at time 0; environments in which a query
  takes 5 ms, a send 300 ms, a write 20 ms and a timer fires 1 ms late, and in which every
  call resolves, or calls reject, or another writer inserts a document during the first
  send; and the service over small pools.
\<close>

definition server :: "string \<Rightarrow> bool \<Rightarrow> int \<Rightarrow> smtpConfig" where
  "server ident dflt limit =
     \<lparr>smtp_id = ident, host = ident @ ''.example.org'', port = 465, username = ''user'',
      password = ''secret'', fromEmail = ''news@example.org'', fromName = ''News'',
      isDefault = dflt, dailyLimit = limit\<rparr>"

definition sentDoc :: "string \<Rightarrow> nat \<Rightarrow> emailLog" where
  "sentDoc ident t =
     \<lparr>smtpConfigId = ident, campaignId = ''c0'', subscriberId = ''s0'', status = ''sent'',
      error = None, sentAt = t\<rparr>"

definition task :: "string \<Rightarrow> email" where
  "task sub = \<lparr>email_subscriberId = sub, email_to = ''reader@example.org'',
               email_subject = ''Hello'', email_html = ''<p>Hello</p>''\<rparr>"

definition msPerDay :: nat where
  "msPerDay = 86400000"

definition days24 :: "nat \<Rightarrow> nat" where
  "days24 t = t - t mod msPerDay"

definition resolveAll :: "nat \<Rightarrow> js_exn option" where
  "resolveAll k = None"

definition rejectAll :: "js_exn \<Rightarrow> nat \<Rightarrow> js_exn option" where
  "rejectAll x k = Some x"

definition rejectFirst :: "js_exn \<Rightarrow> nat \<Rightarrow> js_exn option" where
  "rejectFirst x k = (if k = 0 then Some x else None)"

definition rejectAt :: "nat \<Rightarrow> js_exn \<Rightarrow> nat \<Rightarrow> js_exn option" where
  "rejectAt n x k = (if k = n then Some x else None)"

definition noWriters :: "nat \<Rightarrow> emailLog list" where
  "noWriters k = []"

definition arriveFirst :: "emailLog list \<Rightarrow> nat \<Rightarrow> emailLog list" where
  "arriveFirst docs k = (if k = 0 then docs else [])"

definition takes :: "nat \<Rightarrow> nat \<Rightarrow> nat" where
  "takes ms k = ms"

definition okEnv :: env where
  "okEnv = \<lparr>sendMailResult = resolveAll, logEmailResult = resolveAll, foreignWrites = noWriters,
            readResult = resolveAll, readTime = takes 5, sendMailTime = takes 300,
            logEmailTime = takes 20, timerLag = takes 1\<rparr>"

definition timeoutEnv :: env where
  "timeoutEnv = okEnv\<lparr>sendMailResult := rejectFirst (JsError ''Connection timeout'')\<rparr>"

definition timeoutDownEnv :: env where
  "timeoutDownEnv = okEnv\<lparr>sendMailResult := rejectFirst (JsError ''Connection timeout''),
                           logEmailResult := rejectAll (JsError ''database unavailable'')\<rparr>"

definition logFlakyEnv :: env where
  "logFlakyEnv = okEnv\<lparr>logEmailResult := rejectFirst (JsError ''write failed'')\<rparr>"

definition logDownEnv :: env where
  "logDownEnv = okEnv\<lparr>logEmailResult := rejectAll (JsError ''database unavailable'')\<rparr>"

definition raceEnv :: env where
  "raceEnv = okEnv\<lparr>sendMailResult := rejectFirst (JsError ''Connection timeout''),
                    foreignWrites := arriveFirst [sentDoc ''A'' 1100]\<rparr>"

definition crowdEnv :: env where
  "crowdEnv = okEnv\<lparr>foreignWrites := arriveFirst [sentDoc ''A'' 1100]\<rparr>"

definition bystanderEnv :: env where
  "bystanderEnv = okEnv\<lparr>foreignWrites := arriveFirst
     [sentDoc ''B'' 1100, (sentDoc ''A'' 1200)\<lparr>status := ''failed'', error := Some ''refused''\<rparr>]\<rparr>"

definition readDownEnv :: env where
  "readDownEnv = okEnv\<lparr>readResult := rejectAt 1 (JsError ''query failed'')\<rparr>"

definition rotW :: world where
  "rotW = refreshSmtpQueue
     (newEmailService [server ''B'' False 5, server ''A'' True 1] [sentDoc ''A'' 10] days24 1000)"

definition fullW :: world where
  "fullW = refreshSmtpQueue
     (newEmailService [server ''A'' True 1, server ''B'' False 1]
        [sentDoc ''A'' 10, sentDoc ''B'' 20] days24 1000)
             \<lparr>currentSmtpIndex := 1\<rparr>"

definition poolW :: world where
  "poolW = newEmailService [server ''B'' False 5, server ''A'' True 2, server ''C'' False 7] []
             days24 1000"

definition freshW :: world where
  "freshW = newEmailService [server ''A'' True 5] [] days24 1000"

definition spentW :: world where
  "spentW = newEmailService [server ''A'' True 1] [sentDoc ''A'' 10] days24 1000"

definition lateW :: world where
  "lateW = newEmailService [server ''A'' True 1] [sentDoc ''A'' 10] days24 86399990"

definition quotaW :: world where
  "quotaW = newEmailService [server ''A'' True 2] [] days24 1000"

definition midnightW :: world where
  "midnightW = newEmailService [server ''A'' True 2] [] days24 86399000"

definition oneLeftW :: world where
  "oneLeftW = newEmailService [server ''A'' True 1] [] days24 1000"

definition raceW :: world where
  "raceW = newEmailService [server ''A'' True 1, server ''B'' False 5] [] days24 1000"

section \<open>Properties\<close>

subsection \<open>Arithmetic of the cursor and of the days\<close>

lemma mod_shift_neq: "s < n \<Longrightarrow> 0 < j \<Longrightarrow> j < n \<Longrightarrow> (s + j) mod n \<noteq> (s::nat)"
proof
  assume a: "s < n" "0 < j" "j < n" and e: "(s + j) mod n = s"
  show False
  proof (cases "s + j < n")
    case True
    with e a show False by simp
  next
    case False
    then have "(s + j) mod n = s + j - n" using a
      by (simp add: mod_if)
    with e a False show False by simp
  qed
qed

lemma mod_shift_inj:
  assumes e: "(s + a) mod n = (s + b) mod n" and a: "a < n" and b: "b < (n::nat)"
  shows "a = b"
proof -
  have gen: "False" if e': "(s + x) mod n = (s + y) mod n" and "x < y" and "y < n" for x y
  proof -
    let ?t = "(s + x) mod n"
    have "?t < n" using that by simp
    moreover have "0 < y - x" "y - x < n" using that by simp_all
    ultimately have "(?t + (y - x)) mod n \<noteq> ?t" by (rule mod_shift_neq)
    moreover have "(?t + (y - x)) mod n = (s + x + (y - x)) mod n"
      by (simp add: mod_add_left_eq)
    moreover have "s + x + (y - x) = s + y" using that by simp
    ultimately show False using e' by simp
  qed
  show ?thesis
  proof (rule ccontr)
    assume "a \<noteq> b"
    then consider "a < b" | "b < a" by linarith
    then show False
    proof cases
      case 1 with gen [OF e] b show False by simp
    next
      case 2 with gen [OF e [symmetric]] a show False by simp
    qed
  qed
qed

lemma mod_shift_onto: "s < n \<Longrightarrow> j < n \<Longrightarrow> (s + (j + n - s) mod n) mod n = (j::nat)"
proof -
  assume a: "s < n" "j < n"
  have "(s + (j + n - s) mod n) mod n = (s + (j + n - s)) mod n"
    by (simp add: mod_add_right_eq)
  also have "\<dots> = (j + n) mod n" using a by simp
  also have "\<dots> = j" using a by simp
  finally show ?thesis .
qed

lemma mod_shift_wrap: "s < n \<Longrightarrow> (s + Suc (n - 1)) mod n = (s::nat)"
  by simp

lemma upt_last: "0 < n \<Longrightarrow> [0..<n] = [0..<n - 1] @ [n - 1]"
  by (cases n) simp_all

lemma days24_le: "days24 t \<le> t"
  by (simp add: days24_def)

lemma days24_first: "t < 86400000 \<Longrightarrow> days24 t = 0"
  by (simp add: days24_def msPerDay_def)

lemma days24_second: "86400000 \<le> t \<Longrightarrow> t < 172800000 \<Longrightarrow> days24 t = 86400000"
proof -
  assume a: "86400000 \<le> t" "t < 172800000"
  then have "t mod 86400000 = t - 86400000"
    by (simp add: mod_if)
  with a show ?thesis by (simp add: days24_def msPerDay_def)
qed

subsection \<open>The fields of the named states\<close>

text \<open>
  What the operations leave unchanged, read field by field: these are the rewrite rules
  of the proofs below.
\<close>

lemma underQuota_same_day:
  "emailLogs w' = emailLogs w \<Longrightarrow> startOfDay w' = startOfDay w \<Longrightarrow>
   underQuota w' c = underQuota w c"
  by (simp add: underQuota_def todayCount_def getSmtpDailyCount_def)

lemma underQuota_cong:
  "emailLogs w' = emailLogs w \<Longrightarrow> clock w' = clock w \<Longrightarrow> localMidnight w' = localMidnight w \<Longrightarrow>
   underQuota w' c = underQuota w c"
  by (rule underQuota_same_day) (simp_all add: startOfDay_def)

lemma underQuota_eval:
  "underQuota w c \<longleftrightarrow>
   int (length (filter (\<lambda>l. smtpConfigId l = smtp_id c \<and> localMidnight w (clock w) \<le> sentAt l \<and>
                             status l = ''sent'') (emailLogs w))) < dailyLimit c"
  by (simp add: underQuota_def todayCount_def getSmtpDailyCount_def countDocuments_def
        startOfDay_def)

lemma todayCount_eval:
  "todayCount w c = countDocuments (smtp_id c) (startOfDay w) (emailLogs w)"
  by (simp add: todayCount_def getSmtpDailyCount_def)

lemma countDocuments_append:
  "countDocuments i d (xs @ ys) = countDocuments i d xs + countDocuments i d ys"
  by (simp add: countDocuments_def)

lemma refreshSmtpQueue_fields:
  "currentSmtpIndex (refreshSmtpQueue w) = 0"
  "transports (refreshSmtpQueue w) = transports w"
  "smtpConfigs (refreshSmtpQueue w) = smtpConfigs w"
  "emailLogs (refreshSmtpQueue w) = emailLogs w"
  "clock (refreshSmtpQueue w) = clock w"
  "localMidnight (refreshSmtpQueue w) = localMidnight w"
  "createdTransports (refreshSmtpQueue w) = createdTransports w"
  "countQueries (refreshSmtpQueue w) = countQueries w"
  "readCalls (refreshSmtpQueue w) = readCalls w"
  "sendMailCalls (refreshSmtpQueue w) = sendMailCalls w"
  "logEmailCalls (refreshSmtpQueue w) = logEmailCalls w"
  "delays (refreshSmtpQueue w) = delays w"
  by (simp_all add: refreshSmtpQueue_def Let_def split: option.split)

lemma refreshSmtpQueue_queue:
  "smtpQueue (refreshSmtpQueue w) =
     (case find isDefault (smtpConfigs w) of
        Some d \<Rightarrow> d # filter (\<lambda>c. \<not> isDefault c) (smtpConfigs w)
      | None \<Rightarrow> smtpConfigs w)"
  by (simp add: refreshSmtpQueue_def getSmtpConfigs_def Let_def split: option.split)

lemma refreshSmtpQueue_idem:
  "smtpQueue w = smtpQueue (refreshSmtpQueue w) \<Longrightarrow> currentSmtpIndex w = 0 \<Longrightarrow> refreshSmtpQueue w = w"
  by (cases "find isDefault (smtpConfigs w)")
     (simp_all add: refreshSmtpQueue_def getSmtpConfigs_def Let_def)

lemma refreshSmtpQueue_twice: "refreshSmtpQueue (refreshSmtpQueue w) = refreshSmtpQueue w"
  by (rule refreshSmtpQueue_idem)
     (simp_all add: refreshSmtpQueue_queue refreshSmtpQueue_fields split: option.split)

lemma refreshSmtpQueue_single: "smtpConfigs w = [s] \<Longrightarrow> smtpQueue (refreshSmtpQueue w) = [s]"
  by (simp add: refreshSmtpQueue_queue)

lemma find_is_first: "find P xs = Some d \<Longrightarrow> P d \<and> d \<in> set xs"
  by (induction xs) (auto split: if_splits)

lemma find_unique:
  "\<forall>c\<in>set pre. \<not> P c \<Longrightarrow> P d \<Longrightarrow> find P (pre @ d # post) = Some d"
  by (induction pre) auto

lemma filter_unique:
  "\<forall>c\<in>set pre \<union> set post. \<not> P c \<Longrightarrow> P d \<Longrightarrow>
   filter (\<lambda>c. \<not> P c) (pre @ d # post) = pre @ post"
  by (simp add: filter_id_conv)

lemma rotatedOnly_refl: "rotatedOnly w w"
  by (simp add: rotatedOnly_def)

lemma rotatedOnly_trans: "rotatedOnly a b \<Longrightarrow> rotatedOnly b c \<Longrightarrow> rotatedOnly a c"
  by (simp add: rotatedOnly_def)

lemma rotatedOnly_refresh: "rotatedOnly w (refreshSmtpQueue w)"
  by (simp add: rotatedOnly_def refreshSmtpQueue_fields)

lemma rotatedOnly_entered: "rotatedOnly w (entered w)"
  by (simp add: entered_def rotatedOnly_refl rotatedOnly_refresh)

lemma rotatedOnly_selected: "rotatedOnly w (selected w k)"
  by (simp add: rotatedOnly_def selected_def)

lemma rotatedOnly_exhausted: "rotatedOnly w (exhausted w)"
  by (simp add: rotatedOnly_def exhausted_def)

lemma underQuota_rotatedOnly: "rotatedOnly w w' \<Longrightarrow> underQuota w' c = underQuota w c"
  by (rule underQuota_cong) (simp_all add: rotatedOnly_def)

lemma selectionOnly_answered: "rotatedOnly w w1 \<Longrightarrow> selectionOnly e w (answered e w1)"
  by (simp add: rotatedOnly_def selectionOnly_def answered_def)

lemma entered_idem: "entered (entered w) = entered w"
  by (simp add: entered_def refreshSmtpQueue_twice)

lemma scanned_0: "currentSmtpIndex w < length (smtpQueue w) \<Longrightarrow> scanned w 0 = w"
  by (simp add: scanned_def scanPosition_def)

lemma scanned_Suc:
  "0 < length (smtpQueue w) \<Longrightarrow> scanned w (Suc k) =
   (scanned w k)\<lparr>countQueries := countQueries (scanned w k) @
                     [smtp_id (smtpQueue (scanned w k) ! currentSmtpIndex (scanned w k))],
                  currentSmtpIndex := (currentSmtpIndex (scanned w k) + 1) mod
                     length (smtpQueue (scanned w k))\<rparr>"
  by (simp add: scanned_def scanPosition_def mod_Suc_eq)

lemma scanPosition_less: "smtpQueue w \<noteq> [] \<Longrightarrow> scanPosition w k < length (smtpQueue w)"
  by (simp add: scanPosition_def)

lemma scanPosition_0:
  "currentSmtpIndex w < length (smtpQueue w) \<Longrightarrow> scanPosition w 0 = currentSmtpIndex w"
  by (simp add: scanPosition_def)

lemma scanPosition_onto:
  assumes "currentSmtpIndex w < length (smtpQueue w)" and "j < length (smtpQueue w)"
  shows "\<exists>k<length (smtpQueue w). scanPosition w k = j"
proof -
  let ?n = "length (smtpQueue w)" and ?s = "currentSmtpIndex w"
  have "scanPosition w ((j + ?n - ?s) mod ?n) = j"
    unfolding scanPosition_def using assms by (rule mod_shift_onto)
  moreover have "(j + ?n - ?s) mod ?n < ?n" using assms(2) by (intro mod_less_divisor) linarith
  ultimately show ?thesis by blast
qed

lemma scanPosition_inj:
  "inj_on (scanPosition w) {0..<length (smtpQueue w)}"
  by (rule inj_onI) (auto simp: scanPosition_def dest: mod_shift_inj)

lemma selected_fields:
  "smtpQueue (selected w k) = smtpQueue w"
  "currentSmtpIndex (selected w k) = scanPosition w k"
  "emailLogs (selected w k) = emailLogs w"
  "clock (selected w k) = clock w"
  "localMidnight (selected w k) = localMidnight w"
  "readCalls (selected w k) = readCalls w"
  by (simp_all add: selected_def)

lemma selected_all_fields:
  "smtpConfigs (selected w k) = smtpConfigs w"
  "sendMailCalls (selected w k) = sendMailCalls w"
  "logEmailCalls (selected w k) = logEmailCalls w"
  "delays (selected w k) = delays w"
  "transports (selected w k) = transports w"
  "createdTransports (selected w k) = createdTransports w"
  by (simp_all add: selected_def)

lemma scanPosition_selected_0:
  "smtpQueue w \<noteq> [] \<Longrightarrow> scanPosition (selected w k) 0 = scanPosition w k"
  by (simp add: scanPosition_def selected_def)

lemma exhausted_fields:
  "smtpQueue (exhausted w) = smtpQueue w" "currentSmtpIndex (exhausted w) = currentSmtpIndex w"
  "emailLogs (exhausted w) = emailLogs w" "clock (exhausted w) = clock w"
  "localMidnight (exhausted w) = localMidnight w" "readCalls (exhausted w) = readCalls w"
  by (simp_all add: exhausted_def)

lemma scanPosition_exhausted: "scanPosition (exhausted w) i = scanPosition w i"
  by (simp add: scanPosition_def exhausted_def)

lemma answered_fields:
  "currentSmtpIndex (answered e w) = currentSmtpIndex w"
  "smtpQueue (answered e w) = smtpQueue w"
  "smtpConfigs (answered e w) = smtpConfigs w"
  "emailLogs (answered e w) = emailLogs w"
  "clock (answered e w) = clock w + readTime e (readCalls w)"
  "localMidnight (answered e w) = localMidnight w"
  "countQueries (answered e w) = countQueries w"
  "readCalls (answered e w) = readCalls w + 1"
  "sendMailCalls (answered e w) = sendMailCalls w"
  "logEmailCalls (answered e w) = logEmailCalls w"
  "delays (answered e w) = delays w"
  "transports (answered e w) = transports w"
  "createdTransports (answered e w) = createdTransports w"
  by (simp_all add: answered_def)

lemma getTransport_fields:
  "currentSmtpIndex (snd (getTransport c w)) = currentSmtpIndex w"
  "smtpQueue (snd (getTransport c w)) = smtpQueue w"
  "smtpConfigs (snd (getTransport c w)) = smtpConfigs w"
  "emailLogs (snd (getTransport c w)) = emailLogs w"
  "clock (snd (getTransport c w)) = clock w"
  "localMidnight (snd (getTransport c w)) = localMidnight w"
  "countQueries (snd (getTransport c w)) = countQueries w"
  "readCalls (snd (getTransport c w)) = readCalls w"
  "sendMailCalls (snd (getTransport c w)) = sendMailCalls w"
  "logEmailCalls (snd (getTransport c w)) = logEmailCalls w"
  "delays (snd (getTransport c w)) = delays w"
  by (simp_all add: getTransport_def Let_def)

lemma attempted_fields:
  "currentSmtpIndex (attempted e c em w) = currentSmtpIndex w"
  "smtpQueue (attempted e c em w) = smtpQueue w"
  "smtpConfigs (attempted e c em w) = smtpConfigs w"
  "emailLogs (attempted e c em w) = emailLogs w @ foreignWrites e (length (sendMailCalls w))"
  "clock (attempted e c em w) = clock w + sendMailTime e (length (sendMailCalls w))"
  "localMidnight (attempted e c em w) = localMidnight w"
  "countQueries (attempted e c em w) = countQueries w"
  "readCalls (attempted e c em w) = readCalls w"
  "sendMailCalls (attempted e c em w) = sendMailCalls w @ [(fst (getTransport c w), envelope c em)]"
  "logEmailCalls (attempted e c em w) = logEmailCalls w"
  "delays (attempted e c em w) = delays w"
  "transports (attempted e c em w) = transports (snd (getTransport c w))"
  "createdTransports (attempted e c em w) = createdTransports (snd (getTransport c w))"
  by (simp_all add: attempted_def handed_def getTransport_fields)

lemma logged_fields:
  "currentSmtpIndex (logged e d w) = currentSmtpIndex w"
  "smtpQueue (logged e d w) = smtpQueue w"
  "smtpConfigs (logged e d w) = smtpConfigs w"
  "emailLogs (logged e d w) = emailLogs w @ [stored d (clock w)]"
  "clock (logged e d w) = clock w + logEmailTime e (logEmailCalls w)"
  "localMidnight (logged e d w) = localMidnight w"
  "countQueries (logged e d w) = countQueries w"
  "readCalls (logged e d w) = readCalls w"
  "sendMailCalls (logged e d w) = sendMailCalls w"
  "logEmailCalls (logged e d w) = logEmailCalls w + 1"
  "delays (logged e d w) = delays w"
  "transports (logged e d w) = transports w"
  "createdTransports (logged e d w) = createdTransports w"
  by (simp_all add: logged_def)

lemma rejected_fields:
  "currentSmtpIndex (rejected e w) = currentSmtpIndex w"
  "smtpQueue (rejected e w) = smtpQueue w"
  "smtpConfigs (rejected e w) = smtpConfigs w"
  "emailLogs (rejected e w) = emailLogs w"
  "clock (rejected e w) = clock w + logEmailTime e (logEmailCalls w)"
  "localMidnight (rejected e w) = localMidnight w"
  "countQueries (rejected e w) = countQueries w"
  "readCalls (rejected e w) = readCalls w"
  "sendMailCalls (rejected e w) = sendMailCalls w"
  "logEmailCalls (rejected e w) = logEmailCalls w + 1"
  "delays (rejected e w) = delays w"
  "transports (rejected e w) = transports w"
  "createdTransports (rejected e w) = createdTransports w"
  by (simp_all add: rejected_def)

lemma delay_fields:
  "currentSmtpIndex (delay e ms w) = currentSmtpIndex w"
  "smtpQueue (delay e ms w) = smtpQueue w"
  "smtpConfigs (delay e ms w) = smtpConfigs w"
  "emailLogs (delay e ms w) = emailLogs w"
  "clock (delay e ms w) = clock w + ms + timerLag e (length (delays w))"
  "localMidnight (delay e ms w) = localMidnight w"
  "countQueries (delay e ms w) = countQueries w"
  "readCalls (delay e ms w) = readCalls w"
  "sendMailCalls (delay e ms w) = sendMailCalls w"
  "logEmailCalls (delay e ms w) = logEmailCalls w"
  "delays (delay e ms w) = delays w @ [ms]"
  "transports (delay e ms w) = transports w"
  "createdTransports (delay e ms w) = createdTransports w"
  by (simp_all add: delay_def)

lemma stored_fields:
  "smtpConfigId (stored d t) = smtpConfigId d" "campaignId (stored d t) = campaignId d"
  "subscriberId (stored d t) = subscriberId d" "status (stored d t) = status d"
  "error (stored d t) = error d" "sentAt (stored d t) = t"
  by (simp_all add: stored_def)

lemma failedEntry_fields:
  "smtpConfigId (failedEntry c campaign em x) = smtp_id c"
  "campaignId (failedEntry c campaign em x) = campaign"
  "subscriberId (failedEntry c campaign em x) = email_subscriberId em"
  "status (failedEntry c campaign em x) = ''failed''"
  "error (failedEntry c campaign em x) = Some (errorText x)"
  by (simp_all add: failedEntry_def)

lemma sentEntry_fields:
  "smtpConfigId (sentEntry c campaign em) = smtp_id c"
  "campaignId (sentEntry c campaign em) = campaign"
  "subscriberId (sentEntry c campaign em) = email_subscriberId em"
  "status (sentEntry c campaign em) = ''sent''"
  "error (sentEntry c campaign em) = None"
  by (simp_all add: sentEntry_def)

lemma sentStep_fields:
  assumes c: "currentSmtpIndex w < length (smtpQueue w)"
  shows "currentSmtpIndex (sentStep e campaign em w) = currentSmtpIndex w"
    and "smtpQueue (sentStep e campaign em w) = smtpQueue w"
    and "smtpConfigs (sentStep e campaign em w) = smtpConfigs w"
    and "emailLogs (sentStep e campaign em w) =
           emailLogs w @ foreignWrites e (length (sendMailCalls w)) @
           [stored (sentEntry (smtpQueue w ! currentSmtpIndex w) campaign em)
              (clock w + readTime e (readCalls w) + sendMailTime e (length (sendMailCalls w)))]"
    and "clock (sentStep e campaign em w) =
           clock w + readTime e (readCalls w) + sendMailTime e (length (sendMailCalls w)) +
           logEmailTime e (logEmailCalls w) + RATE_LIMIT_DELAY + timerLag e (length (delays w))"
    and "localMidnight (sentStep e campaign em w) = localMidnight w"
    and "readCalls (sentStep e campaign em w) = readCalls w + 1"
    and "length (sendMailCalls (sentStep e campaign em w)) = length (sendMailCalls w) + 1"
    and "map snd (sendMailCalls (sentStep e campaign em w)) =
           map snd (sendMailCalls w) @ [envelope (smtpQueue w ! currentSmtpIndex w) em]"
    and "logEmailCalls (sentStep e campaign em w) = logEmailCalls w + 1"
    and "delays (sentStep e campaign em w) = delays w @ [RATE_LIMIT_DELAY]"
  using c
  by (simp_all add: sentStep_def delay_fields logged_fields attempted_fields answered_fields
        selected_fields selected_all_fields scanPosition_0)

lemma failedStep_fields:
  assumes c: "currentSmtpIndex w < length (smtpQueue w)"
  shows "currentSmtpIndex (failedStep e campaign em caught w) = currentSmtpIndex w"
    and "smtpQueue (failedStep e campaign em caught w) = smtpQueue w"
    and "emailLogs (failedStep e campaign em caught w) =
           emailLogs w @ [stored (failedEntry (smtpQueue w ! currentSmtpIndex w) campaign em caught)
                            (clock w + readTime e (readCalls w))]"
    and "clock (failedStep e campaign em caught w) =
           clock w + readTime e (readCalls w) + logEmailTime e (logEmailCalls w) +
           RATE_LIMIT_DELAY * 2 + timerLag e (length (delays w))"
    and "localMidnight (failedStep e campaign em caught w) = localMidnight w"
    and "readCalls (failedStep e campaign em caught w) = readCalls w + 1"
    and "sendMailCalls (failedStep e campaign em caught w) = sendMailCalls w"
    and "logEmailCalls (failedStep e campaign em caught w) = logEmailCalls w + 1"
    and "delays (failedStep e campaign em caught w) = delays w @ [RATE_LIMIT_DELAY * 2]"
  using c
  by (simp_all add: failedStep_def delay_fields logged_fields answered_fields selected_fields
        selected_all_fields scanPosition_0)

lemma observers:
  "thrownBy (Some (Inl (x, w))) = Some x" "thrownBy (Some (Inr (u, w))) = None"
  "finalLogs (Some (Inl (x, w))) = emailLogs w" "finalLogs (Some (Inr (v, w))) = emailLogs w"
  "finalSends (Some (Inl (x, w))) = sendMailCalls w" "finalSends (Some (Inr (v, w))) = sendMailCalls w"
  "finalDelays (Some (Inl (x, w))) = delays w" "finalDelays (Some (Inr (v, w))) = delays w"
  by (simp_all add: thrownBy_def finalLogs_def finalSends_def finalDelays_def worldOf_def)

subsection \<open>The rotation loop\<close>

text \<open>
  One turn of the loop in each of its four outcomes, then \<open>k\<close> turns over exhausted
  servers by induction on \<open>k\<close>: the scan returns the server at the first position under
  quota, or gives up after as many turns as the queue is long.
\<close>

lemma smtpScan_exhausted_step:
  assumes "currentSmtpIndex w < length (smtpQueue w)"
    and "\<not> underQuota w (smtpQueue w ! currentSmtpIndex w)"
    and "(currentSmtpIndex w + 1) mod length (smtpQueue w) \<noteq> s"
  shows "smtpScan s w =
         smtpScan s (w\<lparr>countQueries := countQueries w @ [smtp_id (smtpQueue w ! currentSmtpIndex w)],
                      currentSmtpIndex := (currentSmtpIndex w + 1) mod length (smtpQueue w)\<rparr>)"
  apply (subst smtpScan.simps)
  using assms
  apply (simp add: underQuota_def todayCount_def getSmtpDailyCount_def Let_def)
  done

lemma smtpScan_found_step:
  assumes "currentSmtpIndex w < length (smtpQueue w)"
    and "underQuota w (smtpQueue w ! currentSmtpIndex w)"
  shows "smtpScan s w =
         Some (Inr (smtpQueue w ! currentSmtpIndex w,
                    w\<lparr>countQueries := countQueries w @ [smtp_id (smtpQueue w ! currentSmtpIndex w)]\<rparr>))"
  apply (subst smtpScan.simps)
  using assms
  apply (simp add: underQuota_def todayCount_def getSmtpDailyCount_def Let_def)
  done

lemma smtpScan_wrap_step:
  assumes "currentSmtpIndex w < length (smtpQueue w)"
    and "\<not> underQuota w (smtpQueue w ! currentSmtpIndex w)"
    and "(currentSmtpIndex w + 1) mod length (smtpQueue w) = s"
  shows "smtpScan s w =
         Some (Inl (AllQuotasExhausted,
                    w\<lparr>countQueries := countQueries w @ [smtp_id (smtpQueue w ! currentSmtpIndex w)],
                      currentSmtpIndex := (currentSmtpIndex w + 1) mod length (smtpQueue w)\<rparr>))"
  apply (subst smtpScan.simps)
  using assms
  apply (simp add: underQuota_def todayCount_def getSmtpDailyCount_def Let_def)
  done

lemma smtpScan_undefined_step:
  assumes "\<not> currentSmtpIndex w < length (smtpQueue w)"
  shows "smtpScan s w = Some (Inl (UndefinedConfig, w))"
  apply (subst smtpScan.simps)
  using assms
  apply simp
  done

lemma smtpScan_skip:
  assumes "currentSmtpIndex w < length (smtpQueue w)" and "k < length (smtpQueue w)"
    and "\<forall>i<k. \<not> underQuota w (smtpQueue w ! scanPosition w i)"
  shows "smtpScan (currentSmtpIndex w) w = smtpScan (currentSmtpIndex w) (scanned w k)"
  using assms
proof (induction k)
  case 0
  then show ?case by (simp add: scanned_0)
next
  case (Suc k)
  let ?n = "length (smtpQueue w)"
  let ?s = "currentSmtpIndex w"
  have n0: "0 < ?n" using Suc.prems(2) by linarith
  from Suc have ih: "smtpScan ?s w = smtpScan ?s (scanned w k)" by simp
  have pos: "currentSmtpIndex (scanned w k) < length (smtpQueue (scanned w k))"
    using n0 by (simp add: scanned_def scanPosition_def)
  have ex: "\<not> underQuota (scanned w k) (smtpQueue (scanned w k) ! currentSmtpIndex (scanned w k))"
  proof -
    have "\<not> underQuota w (smtpQueue w ! scanPosition w k)" using Suc.prems by simp
    moreover have "underQuota (scanned w k) (smtpQueue w ! scanPosition w k) =
                   underQuota w (smtpQueue w ! scanPosition w k)"
      by (rule underQuota_cong) (simp_all add: scanned_def)
    ultimately show ?thesis by (simp add: scanned_def)
  qed
  have ne: "(currentSmtpIndex (scanned w k) + 1) mod length (smtpQueue (scanned w k)) \<noteq> ?s"
  proof -
    have "(?s + Suc k) mod ?n \<noteq> ?s"
      using Suc.prems by (intro mod_shift_neq) simp_all
    then show ?thesis by (simp add: scanned_def scanPosition_def mod_Suc_eq)
  qed
  have "smtpScan ?s (scanned w k) = smtpScan ?s (scanned w (Suc k))"
    using smtpScan_exhausted_step [OF pos ex ne] scanned_Suc [OF n0, of k] by simp
  with ih show ?case by simp
qed

lemma smtpScan_found:
  assumes c: "currentSmtpIndex w < length (smtpQueue w)" and k: "k < length (smtpQueue w)"
    and ex: "\<forall>i<k. \<not> underQuota w (smtpQueue w ! scanPosition w i)"
    and uq: "underQuota w (smtpQueue w ! scanPosition w k)"
  shows "smtpScan (currentSmtpIndex w) w =
         Some (Inr (smtpQueue w ! scanPosition w k, selected w k))"
proof -
  have n0: "smtpQueue w \<noteq> []" using c by auto
  have pos: "currentSmtpIndex (scanned w k) < length (smtpQueue (scanned w k))"
    using n0 by (simp add: scanned_def scanPosition_def)
  have "underQuota (scanned w k) (smtpQueue w ! scanPosition w k) =
        underQuota w (smtpQueue w ! scanPosition w k)"
    by (rule underQuota_cong) (simp_all add: scanned_def)
  with uq have uq': "underQuota (scanned w k) (smtpQueue (scanned w k) ! currentSmtpIndex (scanned w k))"
    by (simp add: scanned_def)
  have "smtpScan (currentSmtpIndex w) w = smtpScan (currentSmtpIndex w) (scanned w k)"
    by (rule smtpScan_skip [OF c k ex])
  also have "\<dots> = Some (Inr (smtpQueue (scanned w k) ! currentSmtpIndex (scanned w k),
                    (scanned w k)\<lparr>countQueries := countQueries (scanned w k) @
                       [smtp_id (smtpQueue (scanned w k) ! currentSmtpIndex (scanned w k))]\<rparr>))"
    by (rule smtpScan_found_step [OF pos uq'])
  also have "\<dots> = Some (Inr (smtpQueue w ! scanPosition w k, selected w k))"
    by (simp add: scanned_def selected_def)
  finally show ?thesis .
qed

lemma smtpScan_exhausted:
  assumes c: "currentSmtpIndex w < length (smtpQueue w)"
    and ex: "\<forall>i<length (smtpQueue w). \<not> underQuota w (smtpQueue w ! scanPosition w i)"
  shows "smtpScan (currentSmtpIndex w) w = Some (Inl (AllQuotasExhausted, exhausted w))"
proof -
  let ?n = "length (smtpQueue w)" and ?s = "currentSmtpIndex w"
  let ?w = "scanned w (?n - 1)"
  have n0: "smtpQueue w \<noteq> []" using c by auto
  then have n1: "?n - 1 < ?n" by (cases "smtpQueue w") simp_all
  have pos: "currentSmtpIndex ?w < length (smtpQueue ?w)"
    using n0 by (simp add: scanned_def scanPosition_def)
  have "underQuota ?w (smtpQueue w ! scanPosition w (?n - 1)) =
        underQuota w (smtpQueue w ! scanPosition w (?n - 1))"
    by (rule underQuota_cong) (simp_all add: scanned_def)
  with ex n1 have ex': "\<not> underQuota ?w (smtpQueue ?w ! currentSmtpIndex ?w)"
    by (simp add: scanned_def)
  have "(?s + Suc (?n - 1)) mod ?n = ?s" using c by (rule mod_shift_wrap)
  then have wrap: "(currentSmtpIndex ?w + 1) mod length (smtpQueue ?w) = ?s"
    by (simp add: scanned_def scanPosition_def mod_Suc_eq)
  have "smtpScan ?s w = smtpScan ?s ?w"
    using ex n1 by (intro smtpScan_skip [OF c]) simp_all
  also have "\<dots> = Some (Inl (AllQuotasExhausted,
                    ?w\<lparr>countQueries := countQueries ?w @ [smtp_id (smtpQueue ?w ! currentSmtpIndex ?w)],
                      currentSmtpIndex := (currentSmtpIndex ?w + 1) mod length (smtpQueue ?w)\<rparr>))"
    by (rule smtpScan_wrap_step [OF pos ex' wrap])
  also have "?w\<lparr>countQueries := countQueries ?w @ [smtp_id (smtpQueue ?w ! currentSmtpIndex ?w)],
                      currentSmtpIndex := (currentSmtpIndex ?w + 1) mod length (smtpQueue ?w)\<rparr>
             = exhausted w"
  proof -
    have "[0..<?n] = [0..<?n - 1] @ [?n - 1]" using n0 by (intro upt_last) simp
    then show ?thesis using wrap
      by (simp add: scanned_def exhausted_def)
  qed
  finally show ?thesis .
qed

lemma getNextAvailableSmtp_nonempty:
  "smtpQueue w \<noteq> [] \<Longrightarrow> getNextAvailableSmtp w = smtpScan (currentSmtpIndex w) w"
  by (simp add: getNextAvailableSmtp_def)

lemma getNextAvailableSmtp_entered:
  "getNextAvailableSmtp w =
     (if smtpQueue (entered w) = [] then Some (Inl (NoServersConfigured, entered w))
      else smtpScan (currentSmtpIndex (entered w)) (entered w))"
  by (simp add: getNextAvailableSmtp_def entered_def Let_def)

lemma least_under_quota:
  assumes c: "currentSmtpIndex w < length (smtpQueue w)"
    and ex: "\<exists>c\<in>set (smtpQueue w). underQuota w c"
  shows "\<exists>k<length (smtpQueue w). underQuota w (smtpQueue w ! scanPosition w k) \<and>
           (\<forall>i<k. \<not> underQuota w (smtpQueue w ! scanPosition w i))"
proof -
  let ?P = "\<lambda>k. k < length (smtpQueue w) \<and> underQuota w (smtpQueue w ! scanPosition w k)"
  from ex obtain j where j: "j < length (smtpQueue w)" "underQuota w (smtpQueue w ! j)"
    by (auto simp: in_set_conv_nth)
  from scanPosition_onto [OF c j(1)] j(2) have "\<exists>k. ?P k" by auto
  then obtain k where k: "?P k" "\<forall>m<k. \<not> ?P m"
    using exists_least_iff [of ?P] by blast
  then have "\<forall>i<k. \<not> underQuota w (smtpQueue w ! scanPosition w i)" by auto
  with k show ?thesis by blast
qed

text \<open>The four ways in which a call of getNextAvailableSmtp ends.\<close>

lemma getNextAvailableSmtp_cases:
  obtains
    (none) "smtpQueue (entered w) = []"
      "getNextAvailableSmtp w = Some (Inl (NoServersConfigured, entered w))"
  | (undefined) "smtpQueue w \<noteq> []" "\<not> currentSmtpIndex w < length (smtpQueue w)"
      "getNextAvailableSmtp w = Some (Inl (UndefinedConfig, w))"
  | (exhausted) "smtpQueue (entered w) \<noteq> []"
      "currentSmtpIndex (entered w) < length (smtpQueue (entered w))"
      "\<forall>c\<in>set (smtpQueue (entered w)). \<not> underQuota w c"
      "getNextAvailableSmtp w = Some (Inl (AllQuotasExhausted, exhausted (entered w)))"
  | (found) k where "smtpQueue (entered w) \<noteq> []"
      "currentSmtpIndex (entered w) < length (smtpQueue (entered w))"
      "k < length (smtpQueue (entered w))"
      "underQuota w (smtpQueue (entered w) ! scanPosition (entered w) k)"
      "\<forall>i<k. \<not> underQuota w (smtpQueue (entered w) ! scanPosition (entered w) i)"
      "getNextAvailableSmtp w =
         Some (Inr (smtpQueue (entered w) ! scanPosition (entered w) k, selected (entered w) k))"
proof -
  let ?w = "entered w"
  have uq: "underQuota ?w c = underQuota w c" for c
    by (rule underQuota_rotatedOnly) (rule rotatedOnly_entered)
  show thesis
  proof (cases "smtpQueue ?w = []")
    case True
    then show thesis by (intro none) (simp_all add: getNextAvailableSmtp_entered)
  next
    case q: False
    show thesis
    proof (cases "currentSmtpIndex ?w < length (smtpQueue ?w)")
      case False
      then have ne: "smtpQueue w \<noteq> []"
        using q by (auto simp: entered_def refreshSmtpQueue_fields)
      then have same: "?w = w" by (simp add: entered_def)
      with False ne show thesis
        by (intro undefined) (simp_all add: getNextAvailableSmtp_entered smtpScan_undefined_step)
    next
      case c: True
      show thesis
      proof (cases "\<exists>c\<in>set (smtpQueue ?w). underQuota ?w c")
        case True
        from least_under_quota [OF c True] obtain k where k: "k < length (smtpQueue ?w)"
          "underQuota ?w (smtpQueue ?w ! scanPosition ?w k)"
          "\<forall>i<k. \<not> underQuota ?w (smtpQueue ?w ! scanPosition ?w i)" by blast
        from smtpScan_found [OF c k(1) k(3) k(2)] q k c show thesis
          by (intro found [of k]) (simp_all add: getNextAvailableSmtp_entered uq)
      next
        case False
        then have ex: "\<forall>i<length (smtpQueue ?w). \<not> underQuota ?w (smtpQueue ?w ! scanPosition ?w i)"
          using q by (simp add: scanPosition_less)
        from smtpScan_exhausted [OF c ex] q c False show thesis
          by (intro exhausted) (simp_all add: getNextAvailableSmtp_entered uq)
      qed
    qed
  qed
qed

lemma getNextAvailableSmtp_total: "\<exists>r. getNextAvailableSmtp w = Some r"
  by (rule getNextAvailableSmtp_cases [of w]) simp_all

lemma getNextAvailableSmtp_result:
  obtains (throws) x w1 where "getNextAvailableSmtp w = Some (Inl (x, w1))"
  | (returns) c w1 where "getNextAvailableSmtp w = Some (Inr (c, w1))"
proof -
  from getNextAvailableSmtp_total [of w] obtain r where "getNextAvailableSmtp w = Some r" by blast
  then show thesis
    by (cases r) (auto intro: throws returns)
qed

lemma getNextAvailableSmtp_throws_frame:
  "getNextAvailableSmtp w = Some (Inl (x, w')) \<Longrightarrow> rotatedOnly w w'"
  by (rule getNextAvailableSmtp_cases [of w])
     (auto intro: rotatedOnly_entered rotatedOnly_refl
        rotatedOnly_trans [OF rotatedOnly_entered rotatedOnly_exhausted])

lemma getNextAvailableSmtp_returns_frame:
  "getNextAvailableSmtp w = Some (Inr (c, w')) \<Longrightarrow> rotatedOnly w w'"
  by (rule getNextAvailableSmtp_cases [of w])
     (auto intro: rotatedOnly_trans [OF rotatedOnly_entered rotatedOnly_selected])

lemma getNextAvailableSmtp_at_cursor:
  assumes c: "currentSmtpIndex w < length (smtpQueue w)"
    and u: "underQuota w (smtpQueue w ! currentSmtpIndex w)"
  shows "getNextAvailableSmtp w = Some (Inr (smtpQueue w ! currentSmtpIndex w, selected w 0))"
proof -
  have q: "smtpQueue w \<noteq> []" using c by auto
  have n: "0 < length (smtpQueue w)" using c by linarith
  from u have u': "underQuota w (smtpQueue w ! scanPosition w 0)" by (simp add: scanPosition_0 [OF c])
  from smtpScan_found [OF c n _ u'] q show ?thesis
    by (simp add: getNextAvailableSmtp_nonempty scanPosition_0 [OF c])
qed

lemma getNextAvailableSmtp_found:
  assumes c: "currentSmtpIndex w < length (smtpQueue w)" and k: "k < length (smtpQueue w)"
    and ex: "\<forall>i<k. \<not> underQuota w (smtpQueue w ! scanPosition w i)"
    and uq: "underQuota w (smtpQueue w ! scanPosition w k)"
  shows "getNextAvailableSmtp w = Some (Inr (smtpQueue w ! scanPosition w k, selected w k))"
proof -
  have "smtpQueue w \<noteq> []" using c by auto
  with smtpScan_found [OF c k ex uq] show ?thesis by (simp add: getNextAvailableSmtp_nonempty)
qed

lemma getNextAvailableSmtp_none_under_quota:
  assumes c: "currentSmtpIndex w < length (smtpQueue w)"
    and ex: "\<forall>c\<in>set (smtpQueue w). \<not> underQuota w c"
  shows "getNextAvailableSmtp w = Some (Inl (AllQuotasExhausted, exhausted w))"
proof -
  have q: "smtpQueue w \<noteq> []" using c by auto
  have "\<forall>i<length (smtpQueue w). \<not> underQuota w (smtpQueue w ! scanPosition w i)"
    using ex q by (simp add: scanPosition_less)
  from smtpScan_exhausted [OF c this] q show ?thesis
    by (simp add: getNextAvailableSmtp_nonempty)
qed

subsection \<open>The call the loop awaits\<close>

text \<open>
  The three ways in which an awaited call of \<^verbatim>\<open>getNextAvailableSmtp\<close> ends: its
  first read rejects, or the method throws, or it returns a server. In each the state
  differs from the one before in the rotation fields and by the time of the call.
\<close>

lemma getNextAvailableSmtp_reads_first:
  "\<not> readsFirst w \<Longrightarrow> getNextAvailableSmtp w = Some (Inl (UndefinedConfig, w))"
  by (simp add: readsFirst_def getNextAvailableSmtp_nonempty smtpScan_undefined_step)

lemma awaitNextAvailableSmtp_rejects:
  "readsFirst w \<Longrightarrow> readResult e (readCalls w) = Some x \<Longrightarrow>
   awaitNextAvailableSmtp e w = Some (Inl (x, answered e w))"
  by (simp add: awaitNextAvailableSmtp_def)

lemma awaitNextAvailableSmtp_throws:
  "readResult e (readCalls w) = None \<or> \<not> readsFirst w \<Longrightarrow>
   getNextAvailableSmtp w = Some (Inl (x, w1)) \<Longrightarrow>
   awaitNextAvailableSmtp e w = Some (Inl (x, answered e w1))"
  by (auto simp: awaitNextAvailableSmtp_def)

lemma awaitNextAvailableSmtp_returns:
  "readResult e (readCalls w) = None \<Longrightarrow> getNextAvailableSmtp w = Some (Inr (c, w1)) \<Longrightarrow>
   awaitNextAvailableSmtp e w = Some (Inr (c, answered e w1))"
  by (simp add: awaitNextAvailableSmtp_def)

lemma awaitNextAvailableSmtp_cases:
  obtains
    (rejects) x where "readsFirst w" "readResult e (readCalls w) = Some x"
      "awaitNextAvailableSmtp e w = Some (Inl (x, answered e w))"
  | (throws) x w1 where "getNextAvailableSmtp w = Some (Inl (x, w1))"
      "awaitNextAvailableSmtp e w = Some (Inl (x, answered e w1))"
  | (returns) c w1 where "readResult e (readCalls w) = None"
      "getNextAvailableSmtp w = Some (Inr (c, w1))"
      "awaitNextAvailableSmtp e w = Some (Inr (c, answered e w1))"
proof (cases "readsFirst w")
  case False
  from getNextAvailableSmtp_reads_first [OF this] False show thesis
    by (intro throws [of UndefinedConfig w]) (simp_all add: awaitNextAvailableSmtp_throws)
next
  case True
  show thesis
  proof (cases "readResult e (readCalls w)")
    case (Some x)
    with True show thesis by (intro rejects [of x]) (simp_all add: awaitNextAvailableSmtp_rejects)
  next
    case None
    note thrown = throws and returned = returns
    show thesis
    proof (cases w rule: getNextAvailableSmtp_result)
      case (throws x w1)
      with None show thesis
        by (intro thrown [of x w1]) (simp_all add: awaitNextAvailableSmtp_throws)
    next
      case (returns c w1)
      with None show thesis
        by (intro returned [of c w1]) (simp_all add: awaitNextAvailableSmtp_returns)
    qed
  qed
qed

lemma awaitNextAvailableSmtp_frame:
  assumes "awaitNextAvailableSmtp e w = Some r"
  shows "selectionOnly e w (worldOf r)"
proof (cases e w rule: awaitNextAvailableSmtp_cases)
  case (rejects x)
  with assms have "r = Inl (x, answered e w)" by simp
  then show ?thesis
    by (simp add: worldOf_def selectionOnly_answered [OF rotatedOnly_refl])
next
  case (throws x w1)
  with assms have "r = Inl (x, answered e w1)" by simp
  with selectionOnly_answered [OF getNextAvailableSmtp_throws_frame [OF throws(1)], of e]
  show ?thesis by (simp add: worldOf_def)
next
  case (returns c w1)
  with assms have "r = Inr (c, answered e w1)" by simp
  with selectionOnly_answered [OF getNextAvailableSmtp_returns_frame [OF returns(2)], of e]
  show ?thesis by (simp add: worldOf_def)
qed

lemma awaitNextAvailableSmtp_throws_frame:
  "awaitNextAvailableSmtp e w = Some (Inl (x, w')) \<Longrightarrow> selectionOnly e w w'"
  using awaitNextAvailableSmtp_frame [of e w "Inl (x, w')"] by (simp add: worldOf_def)

lemma awaitNextAvailableSmtp_returns_frame:
  "awaitNextAvailableSmtp e w = Some (Inr (c, w')) \<Longrightarrow> selectionOnly e w w'"
  using awaitNextAvailableSmtp_frame [of e w "Inr (c, w')"] by (simp add: worldOf_def)

lemma awaitNextAvailableSmtp_total: "\<exists>r. awaitNextAvailableSmtp e w = Some r"
  by (cases e w rule: awaitNextAvailableSmtp_cases) simp_all

lemma awaitNextAvailableSmtp_result:
  obtains (throws) x w1 where "awaitNextAvailableSmtp e w = Some (Inl (x, w1))"
  | (returns) c w1 where "awaitNextAvailableSmtp e w = Some (Inr (c, w1))"
  by (cases e w rule: awaitNextAvailableSmtp_cases) blast+

lemma awaitNextAvailableSmtp_returned:
  assumes "awaitNextAvailableSmtp e w = Some (Inr (c, w1))"
  obtains w0 where "getNextAvailableSmtp w = Some (Inr (c, w0))" "w1 = answered e w0"
    "readResult e (readCalls w) = None"
  using assms by (cases e w rule: awaitNextAvailableSmtp_cases) auto

lemma awaitNextAvailableSmtp_at_cursor:
  assumes c: "currentSmtpIndex w < length (smtpQueue w)"
    and u: "underQuota w (smtpQueue w ! currentSmtpIndex w)"
    and r: "readResult e (readCalls w) = None"
  shows "awaitNextAvailableSmtp e w =
           Some (Inr (smtpQueue w ! currentSmtpIndex w, answered e (selected w 0)))"
  by (rule awaitNextAvailableSmtp_returns [OF r getNextAvailableSmtp_at_cursor [OF c u]])

lemma awaitNextAvailableSmtp_found:
  assumes c: "currentSmtpIndex w < length (smtpQueue w)" and k: "k < length (smtpQueue w)"
    and ex: "\<forall>i<k. \<not> underQuota w (smtpQueue w ! scanPosition w i)"
    and uq: "underQuota w (smtpQueue w ! scanPosition w k)"
    and r: "readResult e (readCalls w) = None"
  shows "awaitNextAvailableSmtp e w =
           Some (Inr (smtpQueue w ! scanPosition w k, answered e (selected w k)))"
  by (rule awaitNextAvailableSmtp_returns [OF r getNextAvailableSmtp_found [OF c k ex uq]])

lemma awaitNextAvailableSmtp_none_under_quota:
  assumes c: "currentSmtpIndex w < length (smtpQueue w)"
    and ex: "\<forall>c\<in>set (smtpQueue w). \<not> underQuota w c"
    and r: "readResult e (readCalls w) = None"
  shows "awaitNextAvailableSmtp e w = Some (Inl (AllQuotasExhausted, answered e (exhausted w)))"
  by (rule awaitNextAvailableSmtp_throws [OF disjI1 [OF r]
        getNextAvailableSmtp_none_under_quota [OF c ex]])

text \<open>
  The server a call returns is the one the cursor is left at, and it was under quota at
  the time the call started.
\<close>

lemma getNextAvailableSmtp_returned_at_cursor:
  assumes "getNextAvailableSmtp w = Some (Inr (c, w1))"
  shows "currentSmtpIndex w1 < length (smtpQueue w1) \<and> smtpQueue w1 ! currentSmtpIndex w1 = c \<and>
         underQuota w c"
proof (rule getNextAvailableSmtp_cases [of w])
  fix k
  assume "smtpQueue (entered w) \<noteq> []"
    and "underQuota w (smtpQueue (entered w) ! scanPosition (entered w) k)"
    and "getNextAvailableSmtp w =
         Some (Inr (smtpQueue (entered w) ! scanPosition (entered w) k, selected (entered w) k))"
  with assms show ?thesis by (auto simp: selected_fields scanPosition_less)
qed (use assms in simp_all)

subsection \<open>The steps of one task and the loop over the tasks\<close>

lemma logEmail_resolves:
  "logEmailResult e (logEmailCalls w) = None \<Longrightarrow> logEmail e doc w = Inr ((), logged e doc w)"
  by (simp add: logEmail_def logged_def stored_def Let_def)

lemma logEmail_rejects:
  "logEmailResult e (logEmailCalls w) = Some x \<Longrightarrow> logEmail e doc w = Inl (x, rejected e w)"
  by (simp add: logEmail_def rejected_def Let_def)

lemma sendMail_rejects:
  "sendMailResult e (length (sendMailCalls w)) = Some x \<Longrightarrow>
   sendMail e t m w = Inl (x, handed e t m w)"
  by (simp add: sendMail_def handed_def Let_def)

lemma sendMail_resolves:
  "sendMailResult e (length (sendMailCalls w)) = None \<Longrightarrow>
   sendMail e t m w = Inr ((), handed e t m w)"
  by (simp add: sendMail_def handed_def Let_def)

lemma getTransport_hit:
  "transports w (smtp_id c) = Some t \<Longrightarrow> getTransport c w = (t, w)"
  by (simp add: getTransport_def)

lemma getTransport_miss:
  "transports w (smtp_id c) = None \<Longrightarrow>
   getTransport c w =
     (createTransport (length (createdTransports w)) c,
      w\<lparr>transports := (transports w)(smtp_id c \<mapsto> createTransport (length (createdTransports w)) c),
        createdTransports := createdTransports w @
          [(smtp_id c, createTransport (length (createdTransports w)) c)]\<rparr>)"
  by (simp add: getTransport_def Let_def)

lemma getTransport_caches:
  "transports (snd (getTransport c w)) (smtp_id c) = Some (fst (getTransport c w))"
  by (cases "transports w (smtp_id c)") (simp_all add: getTransport_hit getTransport_miss)

lemma getTransport_first:
  "transports w (smtp_id c) = None \<Longrightarrow>
   fst (getTransport c w) = createTransport (length (createdTransports w)) c"
  by (simp add: getTransport_def Let_def)

text \<open>The four ways through the try block.\<close>

lemma trySend_unfold:
  "awaitNextAvailableSmtp e w = Some (Inr (c, w1)) \<Longrightarrow>
   trySend e campaign em w =
     (case sendMail e (fst (getTransport c w1)) (envelope c em) (snd (getTransport c w1)) of
        Inl thrown \<Rightarrow> Some (Inl thrown)
      | Inr (_, w3) \<Rightarrow>
          (case logEmail e (sentEntry c campaign em) w3 of
             Inl thrown \<Rightarrow> Some (Inl thrown)
           | Inr (_, w4) \<Rightarrow> Some (Inr ((), delay e RATE_LIMIT_DELAY w4))))"
  by (simp add: trySend_def envelope_def sentEntry_def split: sum.split prod.split)

lemma trySend_selection_throws:
  "awaitNextAvailableSmtp e w = Some (Inl (x, w1)) \<Longrightarrow>
   trySend e campaign em w = Some (Inl (x, w1))"
  by (simp add: trySend_def)

lemma trySend_send_rejects:
  assumes sel: "awaitNextAvailableSmtp e w = Some (Inr (c, w1))"
    and rej: "sendMailResult e (length (sendMailCalls w)) = Some x"
  shows "trySend e campaign em w = Some (Inl (x, attempted e c em w1))"
proof -
  from awaitNextAvailableSmtp_returns_frame [OF sel]
  have "sendMailCalls (snd (getTransport c w1)) = sendMailCalls w"
    by (simp add: selectionOnly_def getTransport_fields)
  with rej have "sendMailResult e (length (sendMailCalls (snd (getTransport c w1)))) = Some x"
    by simp
  from sendMail_rejects [OF this] show ?thesis
    by (simp add: trySend_unfold [OF sel] attempted_def)
qed

lemma trySend_log_rejects:
  assumes sel: "awaitNextAvailableSmtp e w = Some (Inr (c, w1))"
    and res: "sendMailResult e (length (sendMailCalls w)) = None"
    and rej: "logEmailResult e (logEmailCalls w) = Some x"
  shows "trySend e campaign em w = Some (Inl (x, rejected e (attempted e c em w1)))"
proof -
  from awaitNextAvailableSmtp_returns_frame [OF sel]
  have f: "sendMailCalls (snd (getTransport c w1)) = sendMailCalls w"
    "logEmailCalls (attempted e c em w1) = logEmailCalls w"
    by (simp_all add: selectionOnly_def getTransport_fields attempted_fields)
  with res have "sendMailResult e (length (sendMailCalls (snd (getTransport c w1)))) = None"
    by simp
  from sendMail_resolves [OF this] logEmail_rejects [of e "attempted e c em w1" x] rej f
  show ?thesis
    by (simp add: trySend_unfold [OF sel] attempted_def)
qed

lemma trySend_completes:
  assumes sel: "awaitNextAvailableSmtp e w = Some (Inr (c, w1))"
    and res: "sendMailResult e (length (sendMailCalls w)) = None"
    and ok: "logEmailResult e (logEmailCalls w) = None"
  shows "trySend e campaign em w =
         Some (Inr ((), delay e RATE_LIMIT_DELAY
                          (logged e (sentEntry c campaign em) (attempted e c em w1))))"
proof -
  from awaitNextAvailableSmtp_returns_frame [OF sel]
  have f: "sendMailCalls (snd (getTransport c w1)) = sendMailCalls w"
    "logEmailCalls (attempted e c em w1) = logEmailCalls w"
    by (simp_all add: selectionOnly_def getTransport_fields attempted_fields)
  with res have "sendMailResult e (length (sendMailCalls (snd (getTransport c w1)))) = None"
    by simp
  from sendMail_resolves [OF this] logEmail_resolves [of e "attempted e c em w1"] ok f
  show ?thesis
    by (simp add: trySend_unfold [OF sel] attempted_def)
qed

text \<open>The three ways through the catch block.\<close>

lemma catchError_selection_throws:
  "awaitNextAvailableSmtp e w = Some (Inl (x, w1)) \<Longrightarrow>
   catchError e campaign em caught w = Some (Inl (x, w1))"
  by (simp add: catchError_def)

lemma catchError_log_rejects:
  assumes sel: "awaitNextAvailableSmtp e w = Some (Inr (c, w1))"
    and rej: "logEmailResult e (logEmailCalls w) = Some x"
  shows "catchError e campaign em caught w = Some (Inl (x, rejected e w1))"
proof -
  from awaitNextAvailableSmtp_returns_frame [OF sel] rej
  have "logEmailResult e (logEmailCalls w1) = Some x" by (simp add: selectionOnly_def)
  from logEmail_rejects [OF this] show ?thesis
    by (simp add: catchError_def sel failedEntry_def)
qed

lemma catchError_completes:
  assumes sel: "awaitNextAvailableSmtp e w = Some (Inr (c, w1))"
    and ok: "logEmailResult e (logEmailCalls w) = None"
  shows "catchError e campaign em caught w =
         Some (Inr ((), delay e (RATE_LIMIT_DELAY * 2)
                          (logged e (failedEntry c campaign em caught) w1)))"
proof -
  from awaitNextAvailableSmtp_returns_frame [OF sel] ok
  have "logEmailResult e (logEmailCalls w1) = None" by (simp add: selectionOnly_def)
  from logEmail_resolves [OF this] show ?thesis
    by (simp add: catchError_def sel failedEntry_def)
qed

lemma catchError_returns:
  assumes "catchError e campaign em caught wa = Some (Inr ((), w'))"
  shows "\<exists>wb. w' = delay e (RATE_LIMIT_DELAY * 2) wb \<and> delays wb = delays wa \<and>
              clock wa \<le> clock wb"
proof (cases e wa rule: awaitNextAvailableSmtp_result)
  case (throws x w1)
  with assms show ?thesis by (simp add: catchError_selection_throws)
next
  case (returns c w1)
  have f: "selectionOnly e wa w1" by (rule awaitNextAvailableSmtp_returns_frame [OF returns])
  show ?thesis
  proof (cases "logEmailResult e (logEmailCalls wa)")
    case None
    from assms catchError_completes [OF returns None, of campaign em caught]
    have "w' = delay e (RATE_LIMIT_DELAY * 2) (logged e (failedEntry c campaign em caught) w1)"
      by simp
    moreover have "delays (logged e (failedEntry c campaign em caught) w1) = delays wa"
      "clock wa \<le> clock (logged e (failedEntry c campaign em caught) w1)"
      using f by (simp_all add: logged_fields selectionOnly_def)
    ultimately show ?thesis by blast
  next
    case (Some y)
    from assms catchError_log_rejects [OF returns Some, of campaign em caught]
    show ?thesis by simp
  qed
qed

lemma catchError_logged_at_cursor:
  assumes c: "currentSmtpIndex w < length (smtpQueue w)"
    and u: "underQuota w (smtpQueue w ! currentSmtpIndex w)"
    and r: "readResult e (readCalls w) = None"
    and ok: "logEmailResult e (logEmailCalls w) = None"
  shows "catchError e campaign em caught w = Some (Inr ((), failedStep e campaign em caught w))"
  using catchError_completes [OF awaitNextAvailableSmtp_at_cursor [OF c u r] ok]
  by (simp add: failedStep_def)

lemma catchError_rejected_at_cursor:
  assumes c: "currentSmtpIndex w < length (smtpQueue w)"
    and u: "underQuota w (smtpQueue w ! currentSmtpIndex w)"
    and r: "readResult e (readCalls w) = None"
    and rej: "logEmailResult e (logEmailCalls w) = Some y"
  shows "catchError e campaign em caught w =
           Some (Inl (y, rejected e (answered e (selected w 0))))"
  using catchError_log_rejects [OF awaitNextAvailableSmtp_at_cursor [OF c u r] rej]
  by simp

lemma processEmail_caught:
  "trySend e campaign em w = Some (Inl (caught, w1)) \<Longrightarrow>
   processEmail e campaign em w = catchError e campaign em caught w1"
  by (simp add: processEmail_def)

lemma processEmail_completes:
  "trySend e campaign em w = Some (Inr r) \<Longrightarrow> processEmail e campaign em w = Some (Inr r)"
  by (simp add: processEmail_def)

lemma processEmail_selection_throws_twice:
  assumes "awaitNextAvailableSmtp e w = Some (Inl (x, w1))"
    and "awaitNextAvailableSmtp e w1 = Some (Inl (y, w2))"
  shows "processEmail e campaign em w = Some (Inl (y, w2))"
  by (simp add: processEmail_caught [OF trySend_selection_throws [OF assms(1)]]
        catchError_selection_throws [OF assms(2)])

lemma processEmail_sent_at_cursor:
  assumes c: "currentSmtpIndex w < length (smtpQueue w)"
    and u: "underQuota w (smtpQueue w ! currentSmtpIndex w)"
    and r: "readResult e (readCalls w) = None"
    and res: "sendMailResult e (length (sendMailCalls w)) = None"
    and ok: "logEmailResult e (logEmailCalls w) = None"
  shows "processEmail e campaign em w = Some (Inr ((), sentStep e campaign em w))"
  using processEmail_completes [OF trySend_completes [OF awaitNextAvailableSmtp_at_cursor [OF c u r] res ok]]
  by (simp add: sentStep_def)

text \<open>
  When no server is under quota, the day does not change during the call in the
  \<^verbatim>\<open>try\<close> block and both calls are answered, the call in the \<^verbatim>\<open>catch\<close> block
  throws the same error, which leaves the iteration.
\<close>

lemma processEmail_exhausted_twice:
  assumes c: "currentSmtpIndex w < length (smtpQueue w)"
    and ex: "\<forall>c\<in>set (smtpQueue w). \<not> underQuota w c"
    and r0: "readResult e (readCalls w) = None"
    and r1: "readResult e (readCalls w + 1) = None"
    and day: "localMidnight w (clock w + readTime e (readCalls w)) = localMidnight w (clock w)"
  shows "processEmail e campaign em w =
           Some (Inl (AllQuotasExhausted, answered e (exhausted (answered e (exhausted w)))))"
proof -
  let ?w1 = "answered e (exhausted w)"
  have first: "awaitNextAvailableSmtp e w = Some (Inl (AllQuotasExhausted, ?w1))"
    by (rule awaitNextAvailableSmtp_none_under_quota [OF c ex r0])
  have c1: "currentSmtpIndex ?w1 < length (smtpQueue ?w1)"
    using c by (simp add: answered_fields exhausted_fields)
  have "underQuota ?w1 s = underQuota w s" for s
    by (rule underQuota_same_day)
       (simp_all add: startOfDay_def answered_fields exhausted_fields day)
  with ex have ex1: "\<forall>c\<in>set (smtpQueue ?w1). \<not> underQuota ?w1 c"
    by (simp add: answered_fields exhausted_fields)
  have r1': "readResult e (readCalls ?w1) = None"
    using r1 by (simp add: answered_fields exhausted_fields)
  have "awaitNextAvailableSmtp e ?w1 = Some (Inl (AllQuotasExhausted, answered e (exhausted ?w1)))"
    by (rule awaitNextAvailableSmtp_none_under_quota [OF c1 ex1 r1'])
  from processEmail_selection_throws_twice [OF first this] show ?thesis .
qed

lemma sendLoop_append:
  "sendLoop e campaign (xs @ ys) w =
     (case sendLoop e campaign xs w of
        None \<Rightarrow> None
      | Some (Inl thrown) \<Rightarrow> Some (Inl thrown)
      | Some (Inr (_, w1)) \<Rightarrow> sendLoop e campaign ys w1)"
  by (induction xs arbitrary: w) (auto split: option.splits sum.splits)

lemma sendBulkEmails_started:
  "readResult e (readCalls w) = None \<Longrightarrow>
   sendBulkEmails e campaign emails w = sendLoop e campaign emails (started e w)"
  by (simp add: sendBulkEmails_def started_def)

lemma sendBulkEmails_rejected:
  "readResult e (readCalls w) = Some x \<Longrightarrow>
   sendBulkEmails e campaign emails w = Some (Inl (x, answered e w))"
  by (simp add: sendBulkEmails_def)

lemma sendBulkEmails_append:
  "sendBulkEmails e campaign before w0 = Some (Inr ((), w)) \<Longrightarrow>
   sendBulkEmails e campaign (before @ emails) w0 = sendLoop e campaign emails w"
  by (cases "readResult e (readCalls w0)") (simp_all add: sendBulkEmails_def sendLoop_append)

lemma sendBulkEmails_nil:
  "readResult e (readCalls w) = None \<Longrightarrow>
   sendBulkEmails e campaign [] w = Some (Inr ((), started e w))"
  by (simp add: sendBulkEmails_started)

lemma started_fields:
  "currentSmtpIndex (started e w) = 0"
  "smtpQueue (started e w) = smtpQueue (refreshSmtpQueue w)"
  "smtpConfigs (started e w) = smtpConfigs w"
  "emailLogs (started e w) = emailLogs w"
  "clock (started e w) = clock w + readTime e (readCalls w)"
  "localMidnight (started e w) = localMidnight w"
  "countQueries (started e w) = countQueries w"
  "readCalls (started e w) = readCalls w + 1"
  "sendMailCalls (started e w) = sendMailCalls w"
  "logEmailCalls (started e w) = logEmailCalls w"
  "delays (started e w) = delays w"
  "transports (started e w) = transports w"
  "createdTransports (started e w) = createdTransports w"
  by (simp_all add: started_def answered_fields refreshSmtpQueue_fields)

text \<open>
  The selection in the \<^verbatim>\<open>catch\<close> block returns the server of the attempt when it
  finds the log and the day as the selection in the \<^verbatim>\<open>try\<close> block found them.
\<close>

lemma reselection_same_server:
  assumes sel: "awaitNextAvailableSmtp e w = Some (Inr (c, w1))"
    and q: "smtpQueue a = smtpQueue w1" "currentSmtpIndex a = currentSmtpIndex w1"
    and l: "emailLogs a = emailLogs w" and d: "startOfDay a = startOfDay w"
    and r: "readResult e (readCalls a) = None"
  shows "awaitNextAvailableSmtp e a = Some (Inr (c, answered e (selected a 0)))"
proof -
  from sel obtain w0 where w0: "getNextAvailableSmtp w = Some (Inr (c, w0))" "w1 = answered e w0"
    by (rule awaitNextAvailableSmtp_returned)
  from getNextAvailableSmtp_returned_at_cursor [OF w0(1)]
  have at: "currentSmtpIndex a < length (smtpQueue a)" "smtpQueue a ! currentSmtpIndex a = c"
    "underQuota w c"
    by (simp_all add: q w0(2) answered_fields)
  have "underQuota a c = underQuota w c" by (rule underQuota_same_day [OF l d])
  with at have "underQuota a (smtpQueue a ! currentSmtpIndex a)" by simp
  from awaitNextAvailableSmtp_at_cursor [OF at(1) this r] at(2) show ?thesis by simp
qed

text \<open>
  Whatever the \<^verbatim>\<open>catch\<close> block does, it leaves the log as it was or appends one
  \<^verbatim>\<open>failed\<close> entry, dated at the time its selection returned.
\<close>

lemma catchError_logs:
  assumes "catchError e campaign em caught wa = Some r"
  shows "emailLogs (worldOf r) = emailLogs wa \<or>
         (\<exists>c'. emailLogs (worldOf r) =
                 emailLogs wa @ [stored (failedEntry c' campaign em caught)
                                   (clock wa + readTime e (readCalls wa))])"
proof (cases e wa rule: awaitNextAvailableSmtp_result)
  case (throws x w1)
  with assms awaitNextAvailableSmtp_throws_frame [OF throws] show ?thesis
    by (auto simp: catchError_selection_throws worldOf_def selectionOnly_def)
next
  case (returns c w1)
  have f: "selectionOnly e wa w1" by (rule awaitNextAvailableSmtp_returns_frame [OF returns])
  show ?thesis
  proof (cases "logEmailResult e (logEmailCalls wa)")
    case None
    from assms catchError_completes [OF returns None, of campaign em caught] f
    show ?thesis by (auto simp: worldOf_def delay_fields logged_fields selectionOnly_def)
  next
    case (Some y)
    from assms catchError_log_rejects [OF returns Some, of campaign em caught] f
    show ?thesis by (auto simp: worldOf_def rejected_fields selectionOnly_def)
  qed
qed

subsection \<open>Every operation returns\<close>

text \<open>
  The loop of \<^verbatim>\<open>getNextAvailableSmtp\<close> returns in every state
  (\<open>getNextAvailableSmtp_total\<close>), and so does everything built on it: no result below
  is \<open>None\<close>.
\<close>

lemma catchError_total: "\<exists>r. catchError e campaign em caught w = Some r"
proof (cases e w rule: awaitNextAvailableSmtp_result)
  case (throws x w1)
  then show ?thesis by (simp add: catchError_selection_throws)
next
  case (returns c w1)
  then show ?thesis
    by (cases "logEmailResult e (logEmailCalls w)")
       (simp_all add: catchError_completes catchError_log_rejects)
qed

lemma trySend_total: "\<exists>r. trySend e campaign em w = Some r"
proof (cases e w rule: awaitNextAvailableSmtp_result)
  case (throws x w1)
  then show ?thesis by (simp add: trySend_selection_throws)
next
  case (returns c w1)
  show ?thesis
  proof (cases "sendMailResult e (length (sendMailCalls w))")
    case (Some x)
    from trySend_send_rejects [OF returns Some] show ?thesis by blast
  next
    case None
    then show ?thesis
      by (cases "logEmailResult e (logEmailCalls w)")
         (auto simp: trySend_completes [OF returns None] trySend_log_rejects [OF returns None])
  qed
qed

lemma processEmail_total: "\<exists>r. processEmail e campaign em w = Some r"
proof -
  from trySend_total obtain t where t: "trySend e campaign em w = Some t" by blast
  show ?thesis
  proof (cases t)
    case (Inl thrown)
    obtain caught w1 where "thrown = (caught, w1)" by (cases thrown)
    with t Inl catchError_total [of e campaign em caught w1] show ?thesis
      by (simp add: processEmail_def)
  next
    case (Inr res)
    with t show ?thesis by (simp add: processEmail_def)
  qed
qed

lemma sendLoop_total: "\<exists>r. sendLoop e campaign emails w = Some r"
proof (induction emails arbitrary: w)
  case Nil
  show ?case by simp
next
  case (Cons em emails)
  from processEmail_total obtain t where t: "processEmail e campaign em w = Some t" by blast
  show ?case
  proof (cases t)
    case (Inl thrown)
    with t show ?thesis by simp
  next
    case (Inr res)
    obtain u w1 where "res = (u, w1)" by (cases res)
    with t Inr Cons.IH [of w1] show ?thesis by simp
  qed
qed

lemma sendBulkEmails_total: "\<exists>r. sendBulkEmails e campaign emails w = Some r"
  by (cases "readResult e (readCalls w)") (simp_all add: sendBulkEmails_def sendLoop_total)

subsection \<open>The cursor stays inside the queue\<close>

text \<open>
  The invariant of the rotation queue holds for a new service and is kept by every batch,
  however the batch ends: the hypothesis of C1 and C4 on the cursor holds in every state
  the service reaches.
\<close>

lemma cursorOk_new: "cursorOk (newEmailService configs logs zone now)"
  by (simp add: cursorOk_def newEmailService_def)

lemma cursorOk_refresh: "cursorOk (refreshSmtpQueue w)"
  by (cases "smtpQueue (refreshSmtpQueue w)") (simp_all add: cursorOk_def refreshSmtpQueue_fields)

lemma cursorOk_same:
  "smtpQueue w' = smtpQueue w \<Longrightarrow> currentSmtpIndex w' = currentSmtpIndex w \<Longrightarrow>
   cursorOk w \<Longrightarrow> cursorOk w'"
  by (simp add: cursorOk_def)

lemma cursorOk_entered: "cursorOk w \<Longrightarrow> cursorOk (entered w)"
  by (simp add: entered_def cursorOk_refresh)

lemma getNextAvailableSmtp_cursorOk:
  assumes ok: "cursorOk w" and r: "getNextAvailableSmtp w = Some r"
  shows "cursorOk (worldOf r)"
proof (rule getNextAvailableSmtp_cases [of w])
  assume "getNextAvailableSmtp w = Some (Inl (NoServersConfigured, entered w))"
  with r ok show ?thesis by (auto simp: worldOf_def cursorOk_entered)
next
  assume "getNextAvailableSmtp w = Some (Inl (UndefinedConfig, w))"
  with r ok show ?thesis by (auto simp: worldOf_def)
next
  assume "getNextAvailableSmtp w = Some (Inl (AllQuotasExhausted, exhausted (entered w)))"
  with r cursorOk_entered [OF ok] show ?thesis
    by (auto simp: worldOf_def exhausted_fields elim: cursorOk_same [rotated 2])
next
  fix k
  assume "smtpQueue (entered w) \<noteq> []"
    and "getNextAvailableSmtp w =
         Some (Inr (smtpQueue (entered w) ! scanPosition (entered w) k, selected (entered w) k))"
  with r show ?thesis
    by (auto simp: worldOf_def cursorOk_def selected_fields scanPosition_less)
qed

lemma awaitNextAvailableSmtp_cursorOk:
  assumes ok: "cursorOk w" and r: "awaitNextAvailableSmtp e w = Some r"
  shows "cursorOk (worldOf r)"
proof (cases e w rule: awaitNextAvailableSmtp_cases)
  case (rejects x)
  with r have "r = Inl (x, answered e w)" by simp
  moreover have "cursorOk (answered e w)"
    by (rule cursorOk_same [OF _ _ ok]) (simp_all add: answered_fields)
  ultimately show ?thesis by (simp add: worldOf_def)
next
  case (throws x w1)
  with r have "r = Inl (x, answered e w1)" by simp
  moreover from getNextAvailableSmtp_cursorOk [OF ok throws(1)] have "cursorOk w1"
    by (simp add: worldOf_def)
  then have "cursorOk (answered e w1)"
    by (rule cursorOk_same [rotated 2]) (simp_all add: answered_fields)
  ultimately show ?thesis by (simp add: worldOf_def)
next
  case (returns c w1)
  with r have "r = Inr (c, answered e w1)" by simp
  moreover from getNextAvailableSmtp_cursorOk [OF ok returns(2)] have "cursorOk w1"
    by (simp add: worldOf_def)
  then have "cursorOk (answered e w1)"
    by (rule cursorOk_same [rotated 2]) (simp_all add: answered_fields)
  ultimately show ?thesis by (simp add: worldOf_def)
qed

lemma trySend_cursorOk:
  assumes ok: "cursorOk w" and r: "trySend e campaign em w = Some r"
  shows "cursorOk (worldOf r)"
proof (cases e w rule: awaitNextAvailableSmtp_result)
  case (throws x w1)
  with r have "r = Inl (x, w1)" by (simp add: trySend_selection_throws)
  with awaitNextAvailableSmtp_cursorOk [OF ok throws] show ?thesis by (simp add: worldOf_def)
next
  case (returns c w1)
  from awaitNextAvailableSmtp_cursorOk [OF ok returns] have k: "cursorOk w1" by (simp add: worldOf_def)
  have a: "cursorOk (attempted e c em w1)"
    by (rule cursorOk_same [OF _ _ k]) (simp_all add: attempted_fields)
  show ?thesis
  proof (cases "sendMailResult e (length (sendMailCalls w))")
    case (Some x)
    from r trySend_send_rejects [OF returns Some, of campaign em] a
    show ?thesis by (auto simp: worldOf_def)
  next
    case None
    show ?thesis
    proof (cases "logEmailResult e (logEmailCalls w)")
      case (Some x)
      have "cursorOk (rejected e (attempted e c em w1))"
        by (rule cursorOk_same [OF _ _ a]) (simp_all add: rejected_fields)
      with r trySend_log_rejects [OF returns None Some, of campaign em]
      show ?thesis by (auto simp: worldOf_def)
    next
      case ok': None
      have "cursorOk (delay e RATE_LIMIT_DELAY (logged e (sentEntry c campaign em) (attempted e c em w1)))"
        by (rule cursorOk_same [OF _ _ a]) (simp_all add: delay_fields logged_fields)
      with r trySend_completes [OF returns None ok', of campaign em]
      show ?thesis by (auto simp: worldOf_def)
    qed
  qed
qed

lemma catchError_cursorOk:
  assumes ok: "cursorOk w" and r: "catchError e campaign em caught w = Some r"
  shows "cursorOk (worldOf r)"
proof (cases e w rule: awaitNextAvailableSmtp_result)
  case (throws x w1)
  with r have "r = Inl (x, w1)" by (simp add: catchError_selection_throws)
  with awaitNextAvailableSmtp_cursorOk [OF ok throws] show ?thesis by (simp add: worldOf_def)
next
  case (returns c w1)
  from awaitNextAvailableSmtp_cursorOk [OF ok returns] have k: "cursorOk w1" by (simp add: worldOf_def)
  show ?thesis
  proof (cases "logEmailResult e (logEmailCalls w)")
    case (Some x)
    have "cursorOk (rejected e w1)" by (rule cursorOk_same [OF _ _ k]) (simp_all add: rejected_fields)
    with r catchError_log_rejects [OF returns Some, of campaign em caught]
    show ?thesis by (auto simp: worldOf_def)
  next
    case None
    have "cursorOk (delay e (RATE_LIMIT_DELAY * 2) (logged e (failedEntry c campaign em caught) w1))"
      by (rule cursorOk_same [OF _ _ k]) (simp_all add: delay_fields logged_fields)
    with r catchError_completes [OF returns None, of campaign em caught]
    show ?thesis by (auto simp: worldOf_def)
  qed
qed

lemma processEmail_cursorOk:
  assumes ok: "cursorOk w" and r: "processEmail e campaign em w = Some r"
  shows "cursorOk (worldOf r)"
proof (cases "trySend e campaign em w")
  case None
  with r show ?thesis by (simp add: processEmail_def)
next
  case (Some t)
  show ?thesis
  proof (cases t)
    case (Inl thrown)
    obtain caught w1 where th: "thrown = (caught, w1)" by (cases thrown)
    from trySend_cursorOk [OF ok Some] Inl th have "cursorOk w1" by (simp add: worldOf_def)
    moreover from r Some Inl th have "catchError e campaign em caught w1 = Some r"
      by (simp add: processEmail_def)
    ultimately show ?thesis by (rule catchError_cursorOk)
  next
    case (Inr res)
    with r Some have "r = t" by (simp add: processEmail_def)
    with trySend_cursorOk [OF ok Some] show ?thesis by simp
  qed
qed

lemma sendLoop_cursorOk:
  "cursorOk w \<Longrightarrow> sendLoop e campaign emails w = Some r \<Longrightarrow> cursorOk (worldOf r)"
proof (induction emails arbitrary: w)
  case Nil
  then show ?case by (auto simp: worldOf_def)
next
  case (Cons em emails)
  show ?case
  proof (cases "processEmail e campaign em w")
    case None
    with Cons.prems show ?thesis by simp
  next
    case (Some t)
    show ?thesis
    proof (cases t)
      case (Inl thrown)
      with Cons.prems Some have "r = t" by simp
      with processEmail_cursorOk [OF Cons.prems(1) Some] show ?thesis by simp
    next
      case (Inr res)
      obtain u w1 where d: "res = (u, w1)" by (cases res)
      from processEmail_cursorOk [OF Cons.prems(1) Some] Inr d have "cursorOk w1"
        by (simp add: worldOf_def)
      moreover from Cons.prems Some Inr d have "sendLoop e campaign emails w1 = Some r" by simp
      ultimately show ?thesis by (rule Cons.IH)
    qed
  qed
qed

lemma cursorOk_started: "cursorOk (started e w)"
  by (rule cursorOk_same [OF _ _ cursorOk_refresh [of w]]) (simp_all add: started_fields refreshSmtpQueue_fields)

lemma sendBulkEmails_cursorOk:
  assumes ok: "cursorOk w" and r: "sendBulkEmails e campaign emails w = Some r"
  shows "cursorOk (worldOf r)"
proof (cases "readResult e (readCalls w)")
  case None
  with r have "sendLoop e campaign emails (started e w) = Some r"
    by (simp add: sendBulkEmails_started)
  then show ?thesis by (rule sendLoop_cursorOk [OF cursorOk_started])
next
  case (Some x)
  with r have "r = Inl (x, answered e w)" by (simp add: sendBulkEmails_rejected)
  moreover have "cursorOk (answered e w)"
    by (rule cursorOk_same [OF _ _ ok]) (simp_all add: answered_fields)
  ultimately show ?thesis by (simp add: worldOf_def)
qed

subsection \<open>The cache of transports only grows\<close>

lemma map_add_single: "m k = None \<Longrightarrow> [k \<mapsto> v] ++ m = m(k \<mapsto> v)"
  by (rule ext) (auto simp: map_add_def split: option.splits)

lemma cacheKept_refl: "cacheKept w w"
  by (simp add: cacheKept_def)

lemma cacheKept_trans: "cacheKept a b \<Longrightarrow> cacheKept b c \<Longrightarrow> cacheKept a c"
  by (auto simp: cacheKept_def intro: map_le_trans)

lemma cacheKept_same:
  "transports w' = transports w \<Longrightarrow> createdTransports w' = createdTransports w \<Longrightarrow> cacheKept w w'"
  by (simp add: cacheKept_def cacheOk_def)

lemma cacheKept_rotatedOnly: "rotatedOnly w w' \<Longrightarrow> cacheKept w w'"
  by (simp add: rotatedOnly_def cacheKept_same)

lemma cacheKept_selectionOnly: "selectionOnly e w w' \<Longrightarrow> cacheKept w w'"
  by (simp add: selectionOnly_def cacheKept_same)

lemma cacheOk_getTransport: "cacheOk w \<Longrightarrow> cacheOk (snd (getTransport c w))"
proof (cases "transports w (smtp_id c)")
  case (Some t)
  assume "cacheOk w"
  with Some show ?thesis by (simp add: getTransport_hit)
next
  case None
  assume ok: "cacheOk w"
  then have m: "map_of (createdTransports w) (smtp_id c) = None" using None
    by (simp add: cacheOk_def)
  then have "smtp_id c \<notin> fst ` set (createdTransports w)" by (simp add: map_of_eq_None_iff)
  with ok m show ?thesis
    using None by (simp add: getTransport_miss [OF None] cacheOk_def map_add_single)
qed

lemma cacheKept_getTransport: "cacheKept w (snd (getTransport c w))"
proof (cases "transports w (smtp_id c)")
  case (Some t)
  then show ?thesis by (simp add: getTransport_hit cacheKept_refl)
next
  case None
  then have "transports w \<subseteq>\<^sub>m transports (snd (getTransport c w))"
    by (auto simp: getTransport_miss map_le_def)
  then show ?thesis by (simp add: cacheKept_def cacheOk_getTransport)
qed

lemma cacheKept_attempted: "cacheKept w (attempted e c em w)"
  by (rule cacheKept_trans [OF cacheKept_getTransport [of w c]])
     (simp add: cacheKept_same attempted_fields)

lemma trySend_cache:
  assumes "trySend e campaign em w = Some r"
  shows "cacheKept w (worldOf r)"
proof (cases e w rule: awaitNextAvailableSmtp_result)
  case (throws x w1)
  with assms have "r = Inl (x, w1)" by (simp add: trySend_selection_throws)
  with awaitNextAvailableSmtp_throws_frame [OF throws] show ?thesis
    by (simp add: worldOf_def cacheKept_selectionOnly)
next
  case (returns c w1)
  have k: "cacheKept w (attempted e c em w1)"
    by (rule cacheKept_trans [OF cacheKept_selectionOnly [OF awaitNextAvailableSmtp_returns_frame [OF returns]]
          cacheKept_attempted])
  show ?thesis
  proof (cases "sendMailResult e (length (sendMailCalls w))")
    case (Some x)
    from assms trySend_send_rejects [OF returns Some, of campaign em] k
    show ?thesis by (auto simp: worldOf_def)
  next
    case None
    show ?thesis
    proof (cases "logEmailResult e (logEmailCalls w)")
      case (Some x)
      have "cacheKept (attempted e c em w1) (rejected e (attempted e c em w1))"
        by (simp add: cacheKept_same rejected_fields)
      with assms trySend_log_rejects [OF returns None Some, of campaign em] k
      show ?thesis by (auto simp: worldOf_def intro: cacheKept_trans)
    next
      case ok: None
      have "cacheKept (attempted e c em w1)
              (delay e RATE_LIMIT_DELAY (logged e (sentEntry c campaign em) (attempted e c em w1)))"
        by (simp add: cacheKept_same delay_fields logged_fields)
      with assms trySend_completes [OF returns None ok, of campaign em] k
      show ?thesis by (auto simp: worldOf_def intro: cacheKept_trans)
    qed
  qed
qed

lemma catchError_cache:
  assumes "catchError e campaign em caught w = Some r"
  shows "cacheKept w (worldOf r)"
proof (cases e w rule: awaitNextAvailableSmtp_result)
  case (throws x w1)
  with assms have "r = Inl (x, w1)" by (simp add: catchError_selection_throws)
  with awaitNextAvailableSmtp_throws_frame [OF throws] show ?thesis
    by (simp add: worldOf_def cacheKept_selectionOnly)
next
  case (returns c w1)
  have k: "cacheKept w w1"
    by (rule cacheKept_selectionOnly [OF awaitNextAvailableSmtp_returns_frame [OF returns]])
  show ?thesis
  proof (cases "logEmailResult e (logEmailCalls w)")
    case (Some x)
    have "cacheKept w1 (rejected e w1)" by (simp add: cacheKept_same rejected_fields)
    with assms catchError_log_rejects [OF returns Some, of campaign em caught] k
    show ?thesis by (auto simp: worldOf_def intro: cacheKept_trans)
  next
    case None
    have "cacheKept w1 (delay e (RATE_LIMIT_DELAY * 2) (logged e (failedEntry c campaign em caught) w1))"
      by (simp add: cacheKept_same delay_fields logged_fields)
    with assms catchError_completes [OF returns None, of campaign em caught] k
    show ?thesis by (auto simp: worldOf_def intro: cacheKept_trans)
  qed
qed

lemma processEmail_cache:
  assumes "processEmail e campaign em w = Some r"
  shows "cacheKept w (worldOf r)"
proof (cases "trySend e campaign em w")
  case None
  with assms show ?thesis by (simp add: processEmail_def)
next
  case (Some t)
  show ?thesis
  proof (cases t)
    case (Inl thrown)
    obtain caught w1 where th: "thrown = (caught, w1)" by (cases thrown)
    from trySend_cache [OF Some] Inl th have "cacheKept w w1" by (simp add: worldOf_def)
    moreover from assms Some Inl th have "catchError e campaign em caught w1 = Some r"
      by (simp add: processEmail_def)
    ultimately show ?thesis by (blast intro: cacheKept_trans catchError_cache)
  next
    case (Inr res)
    with assms Some have "r = t" by (simp add: processEmail_def)
    with trySend_cache [OF Some] show ?thesis by simp
  qed
qed

lemma sendLoop_cache:
  "sendLoop e campaign emails w = Some r \<Longrightarrow> cacheKept w (worldOf r)"
proof (induction emails arbitrary: w)
  case Nil
  then show ?case by (auto simp: worldOf_def cacheKept_refl)
next
  case (Cons em emails)
  show ?case
  proof (cases "processEmail e campaign em w")
    case None
    with Cons.prems show ?thesis by simp
  next
    case (Some t)
    show ?thesis
    proof (cases t)
      case (Inl thrown)
      with Cons.prems Some have "r = t" by simp
      with processEmail_cache [OF Some] show ?thesis by simp
    next
      case (Inr res)
      obtain u w1 where d: "res = (u, w1)" by (cases res)
      from processEmail_cache [OF Some] Inr d have "cacheKept w w1" by (simp add: worldOf_def)
      moreover from Cons.prems Some Inr d have "sendLoop e campaign emails w1 = Some r" by simp
      ultimately show ?thesis by (blast intro: cacheKept_trans Cons.IH)
    qed
  qed
qed

lemma sendBulkEmails_cache:
  assumes "sendBulkEmails e campaign emails w = Some r"
  shows "cacheKept w (worldOf r)"
proof (cases "readResult e (readCalls w)")
  case None
  with assms have "sendLoop e campaign emails (started e w) = Some r"
    by (simp add: sendBulkEmails_started)
  from sendLoop_cache [OF this] show ?thesis
    by (rule cacheKept_trans [rotated]) (simp add: cacheKept_same started_fields)
next
  case (Some x)
  with assms have "r = Inl (x, answered e w)" by (simp add: sendBulkEmails_rejected)
  then show ?thesis by (simp add: worldOf_def cacheKept_same answered_fields)
qed

subsection \<open>One server, below its limit\<close>

text \<open>
  While the only server has room for the tasks that are left, every call resolves, the
  other writers add no document that the count query counts and every task starts on the
  same local day, every task is sent by that server and logged; by induction on the tasks.
\<close>

lemma taskStart_mono: "clock w \<le> taskStart e w k"
  by (induction k) simp_all

lemma taskStart_shift:
  assumes "clock w1 = taskStart e w (Suc 0)" and "readCalls w1 = readCalls w + 1"
    and "length (sendMailCalls w1) = length (sendMailCalls w) + 1"
    and "logEmailCalls w1 = logEmailCalls w + 1" and "length (delays w1) = length (delays w) + 1"
  shows "taskStart e w1 k = taskStart e w (Suc k)"
  using assms by (induction k) simp_all

lemma sentDocAt_shift:
  assumes "clock w1 = taskStart e w (Suc 0)" and "readCalls w1 = readCalls w + 1"
    and "length (sendMailCalls w1) = length (sendMailCalls w) + 1"
    and "logEmailCalls w1 = logEmailCalls w + 1" and "length (delays w1) = length (delays w) + 1"
  shows "sentDocAt e s campaign w1 k em = sentDocAt e s campaign w (Suc k) em"
  using assms(2,3) by (simp add: sentDocAt_def taskStart_shift [OF assms])

lemma batchDocs_shift:
  assumes "clock w1 = taskStart e w (Suc 0)" and "readCalls w1 = readCalls w + 1"
    and "length (sendMailCalls w1) = length (sendMailCalls w) + 1"
    and "logEmailCalls w1 = logEmailCalls w + 1" and "length (delays w1) = length (delays w) + 1"
  shows "batchDocs e s campaign w1 k emails = batchDocs e s campaign w (Suc k) emails"
  using assms(3) by (induction emails arbitrary: k) (simp_all add: sentDocAt_shift [OF assms])

lemma sentDocAt_fields:
  "smtpConfigId (sentDocAt e s campaign w k em) = smtp_id s"
  "status (sentDocAt e s campaign w k em) = ''sent''"
  "subscriberId (sentDocAt e s campaign w k em) = email_subscriberId em"
  "campaignId (sentDocAt e s campaign w k em) = campaign"
  "sentAt (sentDocAt e s campaign w k em) =
     taskStart e w k + readTime e (readCalls w + k) + sendMailTime e (length (sendMailCalls w) + k)"
  by (simp_all add: sentDocAt_def stored_fields sentEntry_fields)

lemma sentDocs_length: "length (sentDocs e s campaign w k emails) = length emails"
  by (induction emails arbitrary: k) simp_all

lemma sentDocs_sent:
  "l \<in> set (sentDocs e s campaign w k emails) \<Longrightarrow> status l = ''sent'' \<and> smtpConfigId l = smtp_id s"
  by (induction emails arbitrary: k) (auto simp: sentDocAt_fields)

lemma sentDocs_subscribers:
  "map subscriberId (sentDocs e s campaign w k emails) = map email_subscriberId emails"
  by (induction emails arbitrary: k) (simp_all add: sentDocAt_fields)

lemma batchDocs_counted:
  "\<forall>j<length emails. \<forall>l\<in>set (foreignWrites e (length (sendMailCalls w) + (k + j))). \<not> countsFor s l \<Longrightarrow>
   filter (countsFor s) (batchDocs e s campaign w k emails) = sentDocs e s campaign w k emails"
proof (induction emails arbitrary: k)
  case Nil
  show ?case by simp
next
  case (Cons em emails)
  from Cons.prems have "\<forall>l\<in>set (foreignWrites e (length (sendMailCalls w) + k)). \<not> countsFor s l"
    by force
  then have none: "filter (countsFor s) (foreignWrites e (length (sendMailCalls w) + k)) = []"
    by (simp add: filter_empty_conv)
  have "\<forall>j<length emails. \<forall>l\<in>set (foreignWrites e (length (sendMailCalls w) + (Suc k + j))).
          \<not> countsFor s l"
  proof (intro allI impI)
    fix j
    assume "j < length emails"
    then have "Suc j < length (em # emails)" by simp
    with Cons.prems
    have "\<forall>l\<in>set (foreignWrites e (length (sendMailCalls w) + (k + Suc j))). \<not> countsFor s l"
      by blast
    then show "\<forall>l\<in>set (foreignWrites e (length (sendMailCalls w) + (Suc k + j))). \<not> countsFor s l"
      by simp
  qed
  moreover have "countsFor s (sentDocAt e s campaign w k em)"
    by (simp add: countsFor_def sentDocAt_fields)
  ultimately show ?case using none by (simp add: Cons.IH)
qed

lemma countDocuments_uncounted:
  "\<forall>l\<in>set xs. \<not> countsFor s l \<Longrightarrow> countDocuments (smtp_id s) d xs = 0"
  by (auto simp: countDocuments_def countsFor_def filter_empty_conv)

lemma sendLoop_single_server_all_sent:
  "smtpQueue w = [s] \<Longrightarrow> currentSmtpIndex w = 0 \<Longrightarrow>
   \<forall>k<length emails. readResult e (readCalls w + k) = None \<Longrightarrow>
   \<forall>k<length emails. sendMailResult e (length (sendMailCalls w) + k) = None \<Longrightarrow>
   \<forall>k<length emails. logEmailResult e (logEmailCalls w + k) = None \<Longrightarrow>
   \<forall>k<length emails. \<forall>l\<in>set (foreignWrites e (length (sendMailCalls w) + k)). \<not> countsFor s l \<Longrightarrow>
   \<forall>k<length emails. localMidnight w (taskStart e w k) = d \<Longrightarrow>
   d \<le> clock w \<Longrightarrow>
   int (countDocuments (smtp_id s) d (emailLogs w)) + int (length emails) \<le> dailyLimit s \<Longrightarrow>
   \<exists>w'. sendLoop e campaign emails w = Some (Inr ((), w')) \<and>
        smtpQueue w' = [s] \<and> currentSmtpIndex w' = 0 \<and>
        localMidnight w' = localMidnight w \<and>
        clock w' = taskStart e w (length emails) \<and>
        readCalls w' = readCalls w + length emails \<and>
        length (sendMailCalls w') = length (sendMailCalls w) + length emails \<and>
        logEmailCalls w' = logEmailCalls w + length emails \<and>
        length (delays w') = length (delays w) + length emails \<and>
        emailLogs w' = emailLogs w @ batchDocs e s campaign w 0 emails \<and>
        map snd (sendMailCalls w') = map snd (sendMailCalls w) @ map (envelope s) emails \<and>
        countDocuments (smtp_id s) d (emailLogs w') =
          countDocuments (smtp_id s) d (emailLogs w) + length emails"
proof (induction emails arbitrary: w)
  case Nil
  then show ?case by simp
next
  case (Cons em emails)
  let ?w1 = "sentStep e campaign em w"
  let ?n = "length emails"
  note q = Cons.prems(1,2) and reads = Cons.prems(3) and sends = Cons.prems(4)
    and logs = Cons.prems(5) and others = Cons.prems(6) and days = Cons.prems(7)
    and begun = Cons.prems(8) and room = Cons.prems(9)
  have c: "currentSmtpIndex w < length (smtpQueue w)" using q by simp
  have at: "smtpQueue w ! currentSmtpIndex w = s" using q by simp
  have r0: "readResult e (readCalls w) = None" using reads by force
  have s0: "sendMailResult e (length (sendMailCalls w)) = None" using sends by force
  have l0: "logEmailResult e (logEmailCalls w) = None" using logs by force
  have o0: "\<forall>l\<in>set (foreignWrites e (length (sendMailCalls w))). \<not> countsFor s l"
    using others by force
  have d0: "startOfDay w = d" using days by (force simp: startOfDay_def)
  have u: "underQuota w (smtpQueue w ! currentSmtpIndex w)"
    using room by (simp add: at underQuota_def todayCount_eval d0)
  have step: "processEmail e campaign em w = Some (Inr ((), ?w1))"
    by (rule processEmail_sent_at_cursor [OF c u r0 s0 l0])
  have clk: "clock ?w1 = taskStart e w (Suc 0)" by (simp add: sentStep_fields [OF c])
  have cnt: "readCalls ?w1 = readCalls w + 1"
    "length (sendMailCalls ?w1) = length (sendMailCalls w) + 1"
    "logEmailCalls ?w1 = logEmailCalls w + 1" "length (delays ?w1) = length (delays w) + 1"
    by (simp_all add: sentStep_fields [OF c])
  note shift = taskStart_shift [OF clk cnt] batchDocs_shift [OF clk cnt]
  have zone: "localMidnight ?w1 = localMidnight w" by (simp add: sentStep_fields [OF c])
  have l1: "emailLogs ?w1 = emailLogs w @ foreignWrites e (length (sendMailCalls w)) @
              [sentDocAt e s campaign w 0 em]"
    by (simp add: sentStep_fields [OF c] at sentDocAt_def)
  have "d \<le> sentAt (sentDocAt e s campaign w 0 em)" using begun by (simp add: sentDocAt_fields)
  then have "countDocuments (smtp_id s) d [sentDocAt e s campaign w 0 em] = 1"
    by (simp add: countDocuments_def sentDocAt_fields)
  with countDocuments_uncounted [OF o0, of d]
  have c1: "countDocuments (smtp_id s) d (emailLogs ?w1) =
              countDocuments (smtp_id s) d (emailLogs w) + 1"
    by (simp add: l1 countDocuments_append)
  have q1: "smtpQueue ?w1 = [s]" "currentSmtpIndex ?w1 = 0"
    using q by (simp_all add: sentStep_fields [OF c])
  have reads1: "\<forall>k<?n. readResult e (readCalls ?w1 + k) = None"
  proof (intro allI impI)
    fix k assume "k < ?n"
    then have "Suc k < length (em # emails)" by simp
    with reads have "readResult e (readCalls w + Suc k) = None" by blast
    then show "readResult e (readCalls ?w1 + k) = None" by (simp add: cnt)
  qed
  have sends1: "\<forall>k<?n. sendMailResult e (length (sendMailCalls ?w1) + k) = None"
  proof (intro allI impI)
    fix k assume "k < ?n"
    then have "Suc k < length (em # emails)" by simp
    with sends have "sendMailResult e (length (sendMailCalls w) + Suc k) = None" by blast
    then show "sendMailResult e (length (sendMailCalls ?w1) + k) = None" by (simp add: cnt)
  qed
  have logs1: "\<forall>k<?n. logEmailResult e (logEmailCalls ?w1 + k) = None"
  proof (intro allI impI)
    fix k assume "k < ?n"
    then have "Suc k < length (em # emails)" by simp
    with logs have "logEmailResult e (logEmailCalls w + Suc k) = None" by blast
    then show "logEmailResult e (logEmailCalls ?w1 + k) = None" by (simp add: cnt)
  qed
  have others1: "\<forall>k<?n. \<forall>l\<in>set (foreignWrites e (length (sendMailCalls ?w1) + k)). \<not> countsFor s l"
  proof (intro allI impI)
    fix k assume "k < ?n"
    then have "Suc k < length (em # emails)" by simp
    with others
    have "\<forall>l\<in>set (foreignWrites e (length (sendMailCalls w) + Suc k)). \<not> countsFor s l" by blast
    then show "\<forall>l\<in>set (foreignWrites e (length (sendMailCalls ?w1) + k)). \<not> countsFor s l"
      by (simp add: cnt)
  qed
  have days1: "\<forall>k<?n. localMidnight ?w1 (taskStart e ?w1 k) = d"
  proof (intro allI impI)
    fix k assume "k < ?n"
    then have "Suc k < length (em # emails)" by simp
    with days have "localMidnight w (taskStart e w (Suc k)) = d" by blast
    then show "localMidnight ?w1 (taskStart e ?w1 k) = d" by (simp only: zone shift)
  qed
  have begun1: "d \<le> clock ?w1" using begun by (simp add: sentStep_fields [OF c])
  have room1: "int (countDocuments (smtp_id s) d (emailLogs ?w1)) + int ?n \<le> dailyLimit s"
    using room c1 by simp
  from Cons.IH [OF q1 reads1 sends1 logs1 others1 days1 begun1 room1] obtain w' where w':
    "sendLoop e campaign emails ?w1 = Some (Inr ((), w'))"
    "smtpQueue w' = [s]" "currentSmtpIndex w' = 0"
    "localMidnight w' = localMidnight ?w1"
    "clock w' = taskStart e ?w1 ?n"
    "readCalls w' = readCalls ?w1 + ?n"
    "length (sendMailCalls w') = length (sendMailCalls ?w1) + ?n"
    "logEmailCalls w' = logEmailCalls ?w1 + ?n"
    "length (delays w') = length (delays ?w1) + ?n"
    "emailLogs w' = emailLogs ?w1 @ batchDocs e s campaign ?w1 0 emails"
    "map snd (sendMailCalls w') = map snd (sendMailCalls ?w1) @ map (envelope s) emails"
    "countDocuments (smtp_id s) d (emailLogs w') =
       countDocuments (smtp_id s) d (emailLogs ?w1) + ?n" by blast
  have run: "sendLoop e campaign (em # emails) w = Some (Inr ((), w'))"
    using step w'(1) by simp
  have clock': "clock w' = taskStart e w (length (em # emails))"
    by (simp only: w'(5) shift list.size) simp
  have logs': "emailLogs w' = emailLogs w @ batchDocs e s campaign w 0 (em # emails)"
    by (simp only: w'(10) shift l1) simp
  have sends': "map snd (sendMailCalls w') = map snd (sendMailCalls w) @ map (envelope s) (em # emails)"
    by (simp add: w'(11) sentStep_fields [OF c] at)
  have zone': "localMidnight w' = localMidnight w" by (simp add: w'(4) zone)
  have reads': "readCalls w' = readCalls w + length (em # emails)" by (simp add: w'(6) cnt)
  have calls': "length (sendMailCalls w') = length (sendMailCalls w) + length (em # emails)"
    by (simp add: w'(7) cnt)
  have writes': "logEmailCalls w' = logEmailCalls w + length (em # emails)"
    by (simp add: w'(8) cnt)
  have delays': "length (delays w') = length (delays w) + length (em # emails)"
    by (simp add: w'(9) cnt)
  have count': "countDocuments (smtp_id s) d (emailLogs w') =
                  countDocuments (smtp_id s) d (emailLogs w) + length (em # emails)"
    by (simp add: w'(12) c1)
  from run w'(2,3) zone' clock' reads' calls' writes' delays' logs' sends' count'
  show ?case by blast
qed

subsection \<open>The example values and runs\<close>

lemma server_simps:
  "smtp_id (server i d l) = i" "isDefault (server i d l) = d" "dailyLimit (server i d l) = l"
  by (simp_all add: server_def)

lemma task_simps: "email_subscriberId (task s) = s"
  by (simp add: task_def)

lemma sentDoc_simps:
  "smtpConfigId (sentDoc i t) = i" "status (sentDoc i t) = ''sent''" "sentAt (sentDoc i t) = t"
  "subscriberId (sentDoc i t) = ''s0''" "error (sentDoc i t) = None"
  by (simp_all add: sentDoc_def)

lemma okEnv_simps:
  "sendMailResult okEnv k = None" "logEmailResult okEnv k = None" "foreignWrites okEnv k = []"
  "readResult okEnv k = None" "readTime okEnv k = 5" "sendMailTime okEnv k = 300"
  "logEmailTime okEnv k = 20" "timerLag okEnv k = 1"
  by (simp_all add: okEnv_def resolveAll_def noWriters_def takes_def)

lemma timeoutEnv_simps:
  "sendMailResult timeoutEnv k = (if k = 0 then Some (JsError ''Connection timeout'') else None)"
  "logEmailResult timeoutEnv k = None" "foreignWrites timeoutEnv k = []"
  "readResult timeoutEnv k = None" "readTime timeoutEnv k = 5" "sendMailTime timeoutEnv k = 300"
  "logEmailTime timeoutEnv k = 20" "timerLag timeoutEnv k = 1"
  by (simp_all add: timeoutEnv_def okEnv_def resolveAll_def rejectFirst_def noWriters_def takes_def)

lemma timeoutDownEnv_simps:
  "sendMailResult timeoutDownEnv k = (if k = 0 then Some (JsError ''Connection timeout'') else None)"
  "logEmailResult timeoutDownEnv k = Some (JsError ''database unavailable'')"
  "foreignWrites timeoutDownEnv k = []"
  "readResult timeoutDownEnv k = None" "readTime timeoutDownEnv k = 5"
  "sendMailTime timeoutDownEnv k = 300" "logEmailTime timeoutDownEnv k = 20"
  "timerLag timeoutDownEnv k = 1"
  by (simp_all add: timeoutDownEnv_def okEnv_def resolveAll_def rejectFirst_def rejectAll_def
        noWriters_def takes_def)

lemma logFlakyEnv_simps:
  "sendMailResult logFlakyEnv k = None"
  "logEmailResult logFlakyEnv k = (if k = 0 then Some (JsError ''write failed'') else None)"
  "foreignWrites logFlakyEnv k = []"
  "readResult logFlakyEnv k = None" "readTime logFlakyEnv k = 5" "sendMailTime logFlakyEnv k = 300"
  "logEmailTime logFlakyEnv k = 20" "timerLag logFlakyEnv k = 1"
  by (simp_all add: logFlakyEnv_def okEnv_def resolveAll_def rejectFirst_def noWriters_def takes_def)

lemma logDownEnv_simps:
  "sendMailResult logDownEnv k = None"
  "logEmailResult logDownEnv k = Some (JsError ''database unavailable'')"
  "foreignWrites logDownEnv k = []"
  "readResult logDownEnv k = None" "readTime logDownEnv k = 5" "sendMailTime logDownEnv k = 300"
  "logEmailTime logDownEnv k = 20" "timerLag logDownEnv k = 1"
  by (simp_all add: logDownEnv_def okEnv_def resolveAll_def rejectAll_def noWriters_def takes_def)

lemma raceEnv_simps:
  "sendMailResult raceEnv k = (if k = 0 then Some (JsError ''Connection timeout'') else None)"
  "logEmailResult raceEnv k = None"
  "foreignWrites raceEnv k = (if k = 0 then [sentDoc ''A'' 1100] else [])"
  "readResult raceEnv k = None" "readTime raceEnv k = 5" "sendMailTime raceEnv k = 300"
  "logEmailTime raceEnv k = 20" "timerLag raceEnv k = 1"
  by (simp_all add: raceEnv_def okEnv_def resolveAll_def rejectFirst_def arriveFirst_def takes_def)

lemma crowdEnv_simps:
  "sendMailResult crowdEnv k = None" "logEmailResult crowdEnv k = None"
  "foreignWrites crowdEnv k = (if k = 0 then [sentDoc ''A'' 1100] else [])"
  "readResult crowdEnv k = None" "readTime crowdEnv k = 5" "sendMailTime crowdEnv k = 300"
  "logEmailTime crowdEnv k = 20" "timerLag crowdEnv k = 1"
  by (simp_all add: crowdEnv_def okEnv_def resolveAll_def arriveFirst_def takes_def)

lemma bystanderEnv_simps:
  "sendMailResult bystanderEnv k = None" "logEmailResult bystanderEnv k = None"
  "foreignWrites bystanderEnv k =
     (if k = 0 then [sentDoc ''B'' 1100,
                     (sentDoc ''A'' 1200)\<lparr>status := ''failed'', error := Some ''refused''\<rparr>]
      else [])"
  "readResult bystanderEnv k = None" "readTime bystanderEnv k = 5"
  "sendMailTime bystanderEnv k = 300" "logEmailTime bystanderEnv k = 20"
  "timerLag bystanderEnv k = 1"
  by (simp_all add: bystanderEnv_def okEnv_def resolveAll_def arriveFirst_def takes_def)

lemma readDownEnv_simps:
  "sendMailResult readDownEnv k = None" "logEmailResult readDownEnv k = None"
  "foreignWrites readDownEnv k = []"
  "readResult readDownEnv k = (if k = 1 then Some (JsError ''query failed'') else None)"
  "readTime readDownEnv k = 5" "sendMailTime readDownEnv k = 300"
  "logEmailTime readDownEnv k = 20" "timerLag readDownEnv k = 1"
  by (simp_all add: readDownEnv_def okEnv_def resolveAll_def rejectAt_def noWriters_def takes_def)

lemma newEmailService_fields:
  "currentSmtpIndex (newEmailService configs logs zone now) = 0"
  "smtpQueue (newEmailService configs logs zone now) = []"
  "smtpConfigs (newEmailService configs logs zone now) = configs"
  "emailLogs (newEmailService configs logs zone now) = logs"
  "clock (newEmailService configs logs zone now) = now"
  "localMidnight (newEmailService configs logs zone now) = zone"
  "countQueries (newEmailService configs logs zone now) = []"
  "readCalls (newEmailService configs logs zone now) = 0"
  "sendMailCalls (newEmailService configs logs zone now) = []"
  "logEmailCalls (newEmailService configs logs zone now) = 0"
  "delays (newEmailService configs logs zone now) = []"
  "transports (newEmailService configs logs zone now) = Map.empty"
  "createdTransports (newEmailService configs logs zone now) = []"
  by (simp_all add: newEmailService_def)

lemma rotW_fields:
  "smtpQueue rotW = [server ''A'' True 1, server ''B'' False 5]"
  "currentSmtpIndex rotW = 0" "emailLogs rotW = [sentDoc ''A'' 10]" "clock rotW = 1000"
  "localMidnight rotW = days24"
  by (simp_all add: rotW_def refreshSmtpQueue_queue refreshSmtpQueue_fields newEmailService_fields
        server_simps)

lemma fullW_fields:
  "smtpQueue fullW = [server ''A'' True 1, server ''B'' False 1]"
  "currentSmtpIndex fullW = 1" "emailLogs fullW = [sentDoc ''A'' 10, sentDoc ''B'' 20]" "clock fullW = 1000"
  "localMidnight fullW = days24" "countQueries fullW = []"
  by (simp_all add: fullW_def refreshSmtpQueue_def newEmailService_def getSmtpConfigs_def server_simps Let_def)

lemma poolW_fields:
  "smtpConfigs poolW = [server ''B'' False 5, server ''A'' True 2, server ''C'' False 7]"
  "emailLogs poolW = []" "clock poolW = 1000" "localMidnight poolW = days24"
  by (simp_all add: poolW_def newEmailService_def)

lemma freshW_fields:
  "smtpConfigs freshW = [server ''A'' True 5]" "emailLogs freshW = []" "clock freshW = 1000"
  "localMidnight freshW = days24" "readCalls freshW = 0" "sendMailCalls freshW = []"
  "logEmailCalls freshW = 0" "delays freshW = []"
  by (simp_all add: freshW_def newEmailService_fields)

lemma freshW_started:
  "smtpQueue (started e freshW) = [server ''A'' True 5]"
  "currentSmtpIndex (started e freshW) = 0"
  "emailLogs (started e freshW) = []"
  "clock (started e freshW) = 1000 + readTime e 0"
  "localMidnight (started e freshW) = days24"
  "readCalls (started e freshW) = 1"
  "sendMailCalls (started e freshW) = []"
  "logEmailCalls (started e freshW) = 0"
  "delays (started e freshW) = []"
  by (simp_all add: started_fields freshW_def refreshSmtpQueue_queue newEmailService_fields
        server_simps)

lemma spentW_fields:
  "smtpConfigs spentW = [server ''A'' True 1]" "emailLogs spentW = [sentDoc ''A'' 10]"
  "clock spentW = 1000" "localMidnight spentW = days24" "readCalls spentW = 0"
  "sendMailCalls spentW = []" "logEmailCalls spentW = 0" "delays spentW = []"
  by (simp_all add: spentW_def newEmailService_fields)

lemma spentW_started:
  "smtpQueue (started e spentW) = [server ''A'' True 1]"
  "currentSmtpIndex (started e spentW) = 0"
  "emailLogs (started e spentW) = [sentDoc ''A'' 10]"
  "clock (started e spentW) = 1000 + readTime e 0"
  "localMidnight (started e spentW) = days24"
  "readCalls (started e spentW) = 1"
  "sendMailCalls (started e spentW) = []"
  "logEmailCalls (started e spentW) = 0"
  "delays (started e spentW) = []"
  by (simp_all add: started_fields spentW_def refreshSmtpQueue_queue newEmailService_fields
        server_simps)

lemma lateW_fields:
  "smtpConfigs lateW = [server ''A'' True 1]" "emailLogs lateW = [sentDoc ''A'' 10]"
  "clock lateW = 86399990" "localMidnight lateW = days24" "readCalls lateW = 0"
  "sendMailCalls lateW = []" "logEmailCalls lateW = 0" "delays lateW = []"
  by (simp_all add: lateW_def newEmailService_fields)

lemma lateW_started:
  "smtpQueue (started e lateW) = [server ''A'' True 1]"
  "currentSmtpIndex (started e lateW) = 0"
  "emailLogs (started e lateW) = [sentDoc ''A'' 10]"
  "clock (started e lateW) = 86399990 + readTime e 0"
  "localMidnight (started e lateW) = days24"
  "readCalls (started e lateW) = 1"
  "sendMailCalls (started e lateW) = []"
  "logEmailCalls (started e lateW) = 0"
  "delays (started e lateW) = []"
  by (simp_all add: started_fields lateW_def refreshSmtpQueue_queue newEmailService_fields
        server_simps)

lemma quotaW_fields:
  "smtpConfigs quotaW = [server ''A'' True 2]" "emailLogs quotaW = []" "clock quotaW = 1000"
  "localMidnight quotaW = days24" "readCalls quotaW = 0" "sendMailCalls quotaW = []"
  "logEmailCalls quotaW = 0" "delays quotaW = []"
  by (simp_all add: quotaW_def newEmailService_fields)

lemma quotaW_started:
  "smtpQueue (started e quotaW) = [server ''A'' True 2]"
  "currentSmtpIndex (started e quotaW) = 0"
  "emailLogs (started e quotaW) = []"
  "clock (started e quotaW) = 1000 + readTime e 0"
  "localMidnight (started e quotaW) = days24"
  "readCalls (started e quotaW) = 1"
  "sendMailCalls (started e quotaW) = []"
  "logEmailCalls (started e quotaW) = 0"
  "delays (started e quotaW) = []"
  by (simp_all add: started_fields quotaW_def refreshSmtpQueue_queue newEmailService_fields
        server_simps)

lemma midnightW_fields:
  "smtpConfigs midnightW = [server ''A'' True 2]" "emailLogs midnightW = []"
  "clock midnightW = 86399000" "localMidnight midnightW = days24" "readCalls midnightW = 0"
  by (simp_all add: midnightW_def newEmailService_fields)

lemma midnightW_started:
  "smtpQueue (started e midnightW) = [server ''A'' True 2]"
  "currentSmtpIndex (started e midnightW) = 0"
  "emailLogs (started e midnightW) = []"
  "clock (started e midnightW) = 86399000 + readTime e 0"
  "localMidnight (started e midnightW) = days24"
  "readCalls (started e midnightW) = 1"
  "sendMailCalls (started e midnightW) = []"
  "logEmailCalls (started e midnightW) = 0"
  "delays (started e midnightW) = []"
  by (simp_all add: started_fields midnightW_def refreshSmtpQueue_queue newEmailService_fields
        server_simps)

lemma oneLeftW_fields:
  "smtpConfigs oneLeftW = [server ''A'' True 1]" "emailLogs oneLeftW = []"
  "clock oneLeftW = 1000" "localMidnight oneLeftW = days24" "readCalls oneLeftW = 0"
  by (simp_all add: oneLeftW_def newEmailService_fields)

lemma oneLeftW_started:
  "smtpQueue (started e oneLeftW) = [server ''A'' True 1]"
  "currentSmtpIndex (started e oneLeftW) = 0"
  "emailLogs (started e oneLeftW) = []"
  "clock (started e oneLeftW) = 1000 + readTime e 0"
  "localMidnight (started e oneLeftW) = days24"
  "readCalls (started e oneLeftW) = 1"
  "sendMailCalls (started e oneLeftW) = []"
  "logEmailCalls (started e oneLeftW) = 0"
  "delays (started e oneLeftW) = []"
  by (simp_all add: started_fields oneLeftW_def refreshSmtpQueue_queue newEmailService_fields
        server_simps)

lemma raceW_fields:
  "readCalls raceW = 0"
  by (simp add: raceW_def newEmailService_fields)

lemma raceW_started:
  "smtpQueue (started e raceW) = [server ''A'' True 1, server ''B'' False 5]"
  "currentSmtpIndex (started e raceW) = 0"
  "emailLogs (started e raceW) = []"
  "clock (started e raceW) = 1000 + readTime e 0"
  "localMidnight (started e raceW) = days24"
  "readCalls (started e raceW) = 1"
  "sendMailCalls (started e raceW) = []"
  "logEmailCalls (started e raceW) = 0"
  "transports (started e raceW) = Map.empty"
  "createdTransports (started e raceW) = []"
  by (simp_all add: started_fields raceW_def refreshSmtpQueue_queue newEmailService_fields
        server_simps)

lemma attempted_selected_fields:
  assumes c: "currentSmtpIndex w < length (smtpQueue w)"
  shows "currentSmtpIndex (attempted e cfg em (answered e (selected w 0))) = currentSmtpIndex w"
    and "smtpQueue (attempted e cfg em (answered e (selected w 0))) = smtpQueue w"
    and "emailLogs (attempted e cfg em (answered e (selected w 0))) =
           emailLogs w @ foreignWrites e (length (sendMailCalls w))"
    and "clock (attempted e cfg em (answered e (selected w 0))) =
           clock w + readTime e (readCalls w) + sendMailTime e (length (sendMailCalls w))"
    and "localMidnight (attempted e cfg em (answered e (selected w 0))) = localMidnight w"
    and "readCalls (attempted e cfg em (answered e (selected w 0))) = readCalls w + 1"
    and "length (sendMailCalls (attempted e cfg em (answered e (selected w 0)))) =
           length (sendMailCalls w) + 1"
    and "logEmailCalls (attempted e cfg em (answered e (selected w 0))) = logEmailCalls w"
    and "delays (attempted e cfg em (answered e (selected w 0))) = delays w"
  using c
  by (simp_all add: attempted_fields answered_fields selected_fields selected_all_fields
        scanPosition_0)

lemma answered_selected_fields:
  assumes c: "currentSmtpIndex w < length (smtpQueue w)"
  shows "currentSmtpIndex (answered e (selected w 0)) = currentSmtpIndex w"
    and "smtpQueue (answered e (selected w 0)) = smtpQueue w"
    and "emailLogs (answered e (selected w 0)) = emailLogs w"
    and "clock (answered e (selected w 0)) = clock w + readTime e (readCalls w)"
    and "localMidnight (answered e (selected w 0)) = localMidnight w"
    and "readCalls (answered e (selected w 0)) = readCalls w + 1"
    and "sendMailCalls (answered e (selected w 0)) = sendMailCalls w"
    and "logEmailCalls (answered e (selected w 0)) = logEmailCalls w"
    and "delays (answered e (selected w 0)) = delays w"
  using c
  by (simp_all add: answered_fields selected_fields selected_all_fields scanPosition_0)

lemma answered_exhausted_fields:
  "currentSmtpIndex (answered e (exhausted w)) = currentSmtpIndex w"
  "smtpQueue (answered e (exhausted w)) = smtpQueue w"
  "emailLogs (answered e (exhausted w)) = emailLogs w"
  "clock (answered e (exhausted w)) = clock w + readTime e (readCalls w)"
  "localMidnight (answered e (exhausted w)) = localMidnight w"
  "readCalls (answered e (exhausted w)) = readCalls w + 1"
  "sendMailCalls (answered e (exhausted w)) = sendMailCalls w"
  "logEmailCalls (answered e (exhausted w)) = logEmailCalls w"
  "delays (answered e (exhausted w)) = delays w"
  by (simp_all add: answered_fields exhausted_def)

text \<open>
  Runs of whole batches, step by step. The first send throws and the write of the log
  entry throws too.
\<close>

lemma log_down_run:
  "thrownBy (sendBulkEmails timeoutDownEnv ''c1'' [task ''s1'', task ''s2''] freshW) =
     Some (JsError ''database unavailable'') \<and>
   finalLogs (sendBulkEmails timeoutDownEnv ''c1'' [task ''s1'', task ''s2''] freshW) = [] \<and>
   length (finalSends (sendBulkEmails timeoutDownEnv ''c1'' [task ''s1'', task ''s2''] freshW)) = 1"
proof -
  let ?e = timeoutDownEnv
  let ?w = "started ?e freshW" and ?A = "server ''A'' True 5"
  let ?a = "attempted ?e ?A (task ''s1'') (answered ?e (selected ?w 0))"
  have r0: "readResult ?e (readCalls freshW) = None" by (simp add: timeoutDownEnv_simps)
  have c: "currentSmtpIndex ?w < length (smtpQueue ?w)" by (simp add: freshW_started)
  have u: "underQuota ?w (smtpQueue ?w ! currentSmtpIndex ?w)"
    by (simp add: underQuota_eval freshW_started server_simps)
  have r: "readResult ?e (readCalls ?w) = None" by (simp add: timeoutDownEnv_simps)
  have sel: "awaitNextAvailableSmtp ?e ?w = Some (Inr (?A, answered ?e (selected ?w 0)))"
    using awaitNextAvailableSmtp_at_cursor [OF c u r] by (simp add: freshW_started)
  have rej: "sendMailResult ?e (length (sendMailCalls ?w)) = Some (JsError ''Connection timeout'')"
    by (simp add: timeoutDownEnv_simps freshW_started)
  have t: "trySend ?e ''c1'' (task ''s1'') ?w = Some (Inl (JsError ''Connection timeout'', ?a))"
    by (rule trySend_send_rejects [OF sel rej])
  have a: "currentSmtpIndex ?a = 0" "smtpQueue ?a = [?A]" "emailLogs ?a = []"
    "length (sendMailCalls ?a) = 1"
    by (simp_all add: attempted_selected_fields [OF c] freshW_started timeoutDownEnv_simps)
  have ca: "currentSmtpIndex ?a < length (smtpQueue ?a)" by (simp add: a)
  have ua: "underQuota ?a (smtpQueue ?a ! currentSmtpIndex ?a)"
    by (simp add: underQuota_eval a server_simps)
  have ra: "readResult ?e (readCalls ?a) = None" by (simp add: timeoutDownEnv_simps)
  have down: "logEmailResult ?e (logEmailCalls ?a) = Some (JsError ''database unavailable'')"
    by (simp add: timeoutDownEnv_simps)
  have "processEmail ?e ''c1'' (task ''s1'') ?w =
          Some (Inl (JsError ''database unavailable'', rejected ?e (answered ?e (selected ?a 0))))"
    by (simp add: processEmail_caught [OF t] catchError_rejected_at_cursor [OF ca ua ra down])
  then have run: "sendBulkEmails ?e ''c1'' [task ''s1'', task ''s2''] freshW =
          Some (Inl (JsError ''database unavailable'', rejected ?e (answered ?e (selected ?a 0))))"
    by (simp add: sendBulkEmails_started [OF r0])
  show ?thesis
    unfolding run
    by (simp add: observers rejected_fields answered_selected_fields [OF ca] a)
qed

text \<open>
  One server with one message left today: the first send throws while another writer
  records a message sent by that server, and the selection in the \<^verbatim>\<open>catch\<close> block
  finds no server.
\<close>

lemma quota_race_run:
  "thrownBy (sendBulkEmails raceEnv ''c1'' [task ''s1'', task ''s2''] oneLeftW) =
     Some AllQuotasExhausted \<and>
   map subscriberId (finalLogs (sendBulkEmails raceEnv ''c1'' [task ''s1'', task ''s2''] oneLeftW)) =
     [''s0''] \<and>
   length (finalSends (sendBulkEmails raceEnv ''c1'' [task ''s1'', task ''s2''] oneLeftW)) = 1"
proof -
  let ?e = raceEnv and ?x = "JsError ''Connection timeout''"
  let ?w = "started ?e oneLeftW" and ?A = "server ''A'' True 1"
  let ?a = "attempted ?e ?A (task ''s1'') (answered ?e (selected ?w 0))"
  have r0: "readResult ?e (readCalls oneLeftW) = None" by (simp add: raceEnv_simps)
  have c: "currentSmtpIndex ?w < length (smtpQueue ?w)" by (simp add: oneLeftW_started)
  have u: "underQuota ?w (smtpQueue ?w ! currentSmtpIndex ?w)"
    by (simp add: underQuota_eval oneLeftW_started server_simps)
  have r: "readResult ?e (readCalls ?w) = None" by (simp add: raceEnv_simps)
  have sel: "awaitNextAvailableSmtp ?e ?w = Some (Inr (?A, answered ?e (selected ?w 0)))"
    using awaitNextAvailableSmtp_at_cursor [OF c u r] by (simp add: oneLeftW_started)
  have rej: "sendMailResult ?e (length (sendMailCalls ?w)) = Some ?x"
    by (simp add: raceEnv_simps oneLeftW_started)
  have t: "trySend ?e ''c1'' (task ''s1'') ?w = Some (Inl (?x, ?a))"
    by (rule trySend_send_rejects [OF sel rej])
  have a: "currentSmtpIndex ?a = 0" "smtpQueue ?a = [?A]" "emailLogs ?a = [sentDoc ''A'' 1100]"
    "clock ?a = 1310" "localMidnight ?a = days24" "length (sendMailCalls ?a) = 1"
    by (simp_all add: attempted_selected_fields [OF c] oneLeftW_started raceEnv_simps)
  have ca: "currentSmtpIndex ?a < length (smtpQueue ?a)" by (simp add: a)
  have ex: "\<forall>c\<in>set (smtpQueue ?a). \<not> underQuota ?a c"
    by (simp add: underQuota_eval a server_simps sentDoc_simps days24_first)
  have ra: "readResult ?e (readCalls ?a) = None" by (simp add: raceEnv_simps)
  have "processEmail ?e ''c1'' (task ''s1'') ?w =
          Some (Inl (AllQuotasExhausted, answered ?e (exhausted ?a)))"
    by (simp add: processEmail_caught [OF t]
          catchError_selection_throws [OF awaitNextAvailableSmtp_none_under_quota [OF ca ex ra]])
  then have run: "sendBulkEmails ?e ''c1'' [task ''s1'', task ''s2''] oneLeftW =
      Some (Inl (AllQuotasExhausted, answered ?e (exhausted ?a)))"
    by (simp add: sendBulkEmails_started [OF r0])
  show ?thesis
    unfolding run
    by (simp add: observers answered_exhausted_fields a sentDoc_simps)
qed

text \<open>
  A batch of three tasks over one server with a limit of two, started one second before
  the local midnight: the count starts again at midnight and all three tasks are sent.
\<close>

lemma midnight_run:
  "todayCount midnightW (server ''A'' True 2) = 0 \<and>
   thrownBy (sendBulkEmails okEnv ''c1'' [task ''s1'', task ''s2'', task ''s3''] midnightW) = None \<and>
   map status (finalLogs (sendBulkEmails okEnv ''c1'' [task ''s1'', task ''s2'', task ''s3''] midnightW)) =
     [''sent'', ''sent'', ''sent''] \<and>
   map sentAt (finalLogs (sendBulkEmails okEnv ''c1'' [task ''s1'', task ''s2'', task ''s3''] midnightW)) =
     [86399310, 86401636, 86403962] \<and>
   length (finalSends (sendBulkEmails okEnv ''c1'' [task ''s1'', task ''s2'', task ''s3''] midnightW)) = 3"
proof -
  let ?A = "server ''A'' True 2"
  let ?w = "started okEnv midnightW"
  let ?w1 = "sentStep okEnv ''c1'' (task ''s1'') ?w"
  let ?w2 = "sentStep okEnv ''c1'' (task ''s2'') ?w1"
  let ?w3 = "sentStep okEnv ''c1'' (task ''s3'') ?w2"
  have t0: "todayCount midnightW ?A = 0"
    by (simp add: todayCount_eval midnightW_fields countDocuments_def)
  have r0: "readResult okEnv (readCalls midnightW) = None" by (simp add: okEnv_simps)
  have c: "currentSmtpIndex ?w < length (smtpQueue ?w)" by (simp add: midnightW_started)
  have u: "underQuota ?w (smtpQueue ?w ! currentSmtpIndex ?w)"
    by (simp add: underQuota_eval midnightW_started server_simps)
  have p1: "processEmail okEnv ''c1'' (task ''s1'') ?w = Some (Inr ((), ?w1))"
    by (rule processEmail_sent_at_cursor [OF c u]) (simp_all add: okEnv_simps)
  have w1: "currentSmtpIndex ?w1 = 0" "smtpQueue ?w1 = [?A]"
    "emailLogs ?w1 = [stored (sentEntry ?A ''c1'' (task ''s1'')) 86399310]"
    "clock ?w1 = 86401331" "localMidnight ?w1 = days24" "length (sendMailCalls ?w1) = 1"
    by (simp_all add: sentStep_fields [OF c] midnightW_started okEnv_simps RATE_LIMIT_DELAY_def)
  have c1: "currentSmtpIndex ?w1 < length (smtpQueue ?w1)" by (simp add: w1)
  have u1: "underQuota ?w1 (smtpQueue ?w1 ! currentSmtpIndex ?w1)"
    by (simp add: underQuota_eval w1 server_simps stored_fields sentEntry_fields days24_second)
  have p2: "processEmail okEnv ''c1'' (task ''s2'') ?w1 = Some (Inr ((), ?w2))"
    by (rule processEmail_sent_at_cursor [OF c1 u1]) (simp_all add: okEnv_simps)
  have w2: "currentSmtpIndex ?w2 = 0" "smtpQueue ?w2 = [?A]"
    "emailLogs ?w2 = [stored (sentEntry ?A ''c1'' (task ''s1'')) 86399310,
                      stored (sentEntry ?A ''c1'' (task ''s2'')) 86401636]"
    "clock ?w2 = 86403657" "localMidnight ?w2 = days24" "length (sendMailCalls ?w2) = 2"
    by (simp_all add: sentStep_fields [OF c1] w1 okEnv_simps RATE_LIMIT_DELAY_def)
  have c2: "currentSmtpIndex ?w2 < length (smtpQueue ?w2)" by (simp add: w2)
  have u2: "underQuota ?w2 (smtpQueue ?w2 ! currentSmtpIndex ?w2)"
    by (simp add: underQuota_eval w2 server_simps stored_fields sentEntry_fields days24_second)
  have p3: "processEmail okEnv ''c1'' (task ''s3'') ?w2 = Some (Inr ((), ?w3))"
    by (rule processEmail_sent_at_cursor [OF c2 u2]) (simp_all add: okEnv_simps)
  have w3: "emailLogs ?w3 = [stored (sentEntry ?A ''c1'' (task ''s1'')) 86399310,
                      stored (sentEntry ?A ''c1'' (task ''s2'')) 86401636,
                      stored (sentEntry ?A ''c1'' (task ''s3'')) 86403962]"
    "length (sendMailCalls ?w3) = 3"
    by (simp_all add: sentStep_fields [OF c2] w2 okEnv_simps)
  have run: "sendBulkEmails okEnv ''c1'' [task ''s1'', task ''s2'', task ''s3''] midnightW =
               Some (Inr ((), ?w3))"
    by (simp add: sendBulkEmails_started [OF r0] p1 p2 p3)
  show ?thesis
    unfolding run
    by (simp add: t0 observers w3 stored_fields sentEntry_fields)
qed

text \<open>
  A batch of two tasks over one server with a limit of one: the write of the first
  \<^verbatim>\<open>sent\<close> entry throws, the first task is logged as failed and both are sent.
\<close>

lemma unlogged_send_run:
  "sendMailResult logFlakyEnv 0 = None \<and> sendMailResult logFlakyEnv 1 = None \<and>
   todayCount oneLeftW (server ''A'' True 1) = 0 \<and>
   thrownBy (sendBulkEmails logFlakyEnv ''c1'' [task ''s1'', task ''s2''] oneLeftW) = None \<and>
   map status (finalLogs (sendBulkEmails logFlakyEnv ''c1'' [task ''s1'', task ''s2''] oneLeftW)) =
     [''failed'', ''sent''] \<and>
   length (finalSends (sendBulkEmails logFlakyEnv ''c1'' [task ''s1'', task ''s2''] oneLeftW)) = 2"
proof -
  let ?e = logFlakyEnv and ?x = "JsError ''write failed''"
  let ?w = "started ?e oneLeftW" and ?A = "server ''A'' True 1"
  let ?a = "rejected ?e (attempted ?e ?A (task ''s1'') (answered ?e (selected ?w 0)))"
  let ?w1 = "failedStep ?e ''c1'' (task ''s1'') ?x ?a"
  let ?w2 = "sentStep ?e ''c1'' (task ''s2'') ?w1"
  have t0: "todayCount oneLeftW ?A = 0"
    by (simp add: todayCount_eval oneLeftW_fields countDocuments_def)
  have r0: "readResult ?e (readCalls oneLeftW) = None" by (simp add: logFlakyEnv_simps)
  have c: "currentSmtpIndex ?w < length (smtpQueue ?w)" by (simp add: oneLeftW_started)
  have u: "underQuota ?w (smtpQueue ?w ! currentSmtpIndex ?w)"
    by (simp add: underQuota_eval oneLeftW_started server_simps)
  have r: "readResult ?e (readCalls ?w) = None" by (simp add: logFlakyEnv_simps)
  have sel: "awaitNextAvailableSmtp ?e ?w = Some (Inr (?A, answered ?e (selected ?w 0)))"
    using awaitNextAvailableSmtp_at_cursor [OF c u r] by (simp add: oneLeftW_started)
  have res: "sendMailResult ?e (length (sendMailCalls ?w)) = None"
    by (simp add: logFlakyEnv_simps)
  have rej: "logEmailResult ?e (logEmailCalls ?w) = Some ?x"
    by (simp add: logFlakyEnv_simps oneLeftW_started)
  have t: "trySend ?e ''c1'' (task ''s1'') ?w = Some (Inl (?x, ?a))"
    by (rule trySend_log_rejects [OF sel res rej])
  have a: "currentSmtpIndex ?a = 0" "smtpQueue ?a = [?A]" "emailLogs ?a = []"
    "length (sendMailCalls ?a) = 1" "logEmailCalls ?a = 1" "delays ?a = []"
    by (simp_all add: rejected_fields attempted_selected_fields [OF c] oneLeftW_started
          logFlakyEnv_simps)
  have ca: "currentSmtpIndex ?a < length (smtpQueue ?a)" by (simp add: a)
  have ua: "underQuota ?a (smtpQueue ?a ! currentSmtpIndex ?a)"
    by (simp add: underQuota_eval a server_simps)
  have ra: "readResult ?e (readCalls ?a) = None" by (simp add: logFlakyEnv_simps)
  have ok: "logEmailResult ?e (logEmailCalls ?a) = None"
    by (simp add: a logFlakyEnv_simps)
  have p1: "processEmail ?e ''c1'' (task ''s1'') ?w = Some (Inr ((), ?w1))"
    by (simp add: processEmail_caught [OF t] catchError_logged_at_cursor [OF ca ua ra ok])
  have w1: "currentSmtpIndex ?w1 = 0" "smtpQueue ?w1 = [?A]"
    "map status (emailLogs ?w1) = [''failed'']"
    "length (sendMailCalls ?w1) = 1" "logEmailCalls ?w1 = 2"
    by (simp_all add: failedStep_fields [OF ca] a stored_fields failedEntry_fields)
  have c1: "currentSmtpIndex ?w1 < length (smtpQueue ?w1)" by (simp add: w1)
  have "\<forall>l\<in>set (emailLogs ?w1). status l \<noteq> ''sent''"
    by (simp add: failedStep_fields [OF ca] a stored_fields failedEntry_fields)
  then have u1: "underQuota ?w1 (smtpQueue ?w1 ! currentSmtpIndex ?w1)"
    by (simp add: underQuota_eval w1 server_simps filter_empty_conv [THEN iffD2])
  have r1: "readResult ?e (readCalls ?w1) = None" by (simp add: logFlakyEnv_simps)
  have res1: "sendMailResult ?e (length (sendMailCalls ?w1)) = None"
    by (simp add: logFlakyEnv_simps)
  have ok1: "logEmailResult ?e (logEmailCalls ?w1) = None"
    by (simp add: w1 logFlakyEnv_simps)
  have p2: "processEmail ?e ''c1'' (task ''s2'') ?w1 = Some (Inr ((), ?w2))"
    by (rule processEmail_sent_at_cursor [OF c1 u1 r1 res1 ok1])
  have run: "sendBulkEmails ?e ''c1'' [task ''s1'', task ''s2''] oneLeftW = Some (Inr ((), ?w2))"
    by (simp add: sendBulkEmails_started [OF r0] p1 p2)
  show ?thesis
    unfolding run
    by (simp add: t0 observers sentStep_fields [OF c1] w1 stored_fields sentEntry_fields
          logFlakyEnv_simps)
qed

text \<open>
  A batch of three tasks over one server with a limit of two: another writer records a
  message sent by that server during the first send, and the batch ends after one message.
\<close>

lemma crowded_run:
  "todayCount quotaW (server ''A'' True 2) = 0 \<and>
   thrownBy (sendBulkEmails crowdEnv ''c1'' [task ''s1'', task ''s2'', task ''s3''] quotaW) =
     Some AllQuotasExhausted \<and>
   map subscriberId (finalLogs (sendBulkEmails crowdEnv ''c1'' [task ''s1'', task ''s2'', task ''s3''] quotaW)) =
     [''s0'', ''s1''] \<and>
   length (finalSends (sendBulkEmails crowdEnv ''c1'' [task ''s1'', task ''s2'', task ''s3''] quotaW)) = 1"
proof -
  let ?e = crowdEnv
  let ?w = "started ?e quotaW" and ?A = "server ''A'' True 2"
  let ?w1 = "sentStep ?e ''c1'' (task ''s1'') ?w"
  let ?w' = "answered ?e (exhausted (answered ?e (exhausted ?w1)))"
  have t0: "todayCount quotaW ?A = 0"
    by (simp add: todayCount_eval quotaW_fields countDocuments_def)
  have r0: "readResult ?e (readCalls quotaW) = None" by (simp add: crowdEnv_simps)
  have c: "currentSmtpIndex ?w < length (smtpQueue ?w)" by (simp add: quotaW_started)
  have u: "underQuota ?w (smtpQueue ?w ! currentSmtpIndex ?w)"
    by (simp add: underQuota_eval quotaW_started server_simps)
  have p1: "processEmail ?e ''c1'' (task ''s1'') ?w = Some (Inr ((), ?w1))"
    by (rule processEmail_sent_at_cursor [OF c u]) (simp_all add: crowdEnv_simps)
  have w1: "currentSmtpIndex ?w1 = 0" "smtpQueue ?w1 = [?A]"
    "emailLogs ?w1 = [sentDoc ''A'' 1100, stored (sentEntry ?A ''c1'' (task ''s1'')) 1310]"
    "clock ?w1 = 3331" "localMidnight ?w1 = days24" "length (sendMailCalls ?w1) = 1"
    by (simp_all add: sentStep_fields [OF c] quotaW_started crowdEnv_simps RATE_LIMIT_DELAY_def)
  have c1: "currentSmtpIndex ?w1 < length (smtpQueue ?w1)" by (simp add: w1)
  have ex: "\<forall>c\<in>set (smtpQueue ?w1). \<not> underQuota ?w1 c"
    by (simp add: underQuota_eval w1 server_simps stored_fields sentEntry_fields sentDoc_simps
          days24_first)
  have day: "localMidnight ?w1 (clock ?w1 + readTime ?e (readCalls ?w1)) =
             localMidnight ?w1 (clock ?w1)"
    by (simp add: w1 crowdEnv_simps days24_first)
  have p2: "processEmail ?e ''c1'' (task ''s2'') ?w1 = Some (Inl (AllQuotasExhausted, ?w'))"
    by (rule processEmail_exhausted_twice [OF c1 ex _ _ day]) (simp_all add: crowdEnv_simps)
  have run: "sendBulkEmails ?e ''c1'' [task ''s1'', task ''s2'', task ''s3''] quotaW =
      Some (Inl (AllQuotasExhausted, ?w'))"
    by (simp add: sendBulkEmails_started [OF r0] p1 p2)
  show ?thesis
    unfolding run
    by (simp add: t0 observers answered_exhausted_fields w1 stored_fields sentEntry_fields
          sentDoc_simps task_simps)
qed

text \<open>
  A batch of two tasks over one server with a limit of one: the count query of the first
  task rejects; the \<^verbatim>\<open>catch\<close> block logs the first task as failed, it is never sent,
  and the batch returns.
\<close>

lemma rejected_query_run:
  "todayCount oneLeftW (server ''A'' True 1) = 0 \<and>
   thrownBy (sendBulkEmails readDownEnv ''c1'' [task ''s1'', task ''s2''] oneLeftW) = None \<and>
   map status (finalLogs (sendBulkEmails readDownEnv ''c1'' [task ''s1'', task ''s2''] oneLeftW)) =
     [''failed'', ''sent''] \<and>
   map error (finalLogs (sendBulkEmails readDownEnv ''c1'' [task ''s1'', task ''s2''] oneLeftW)) =
     [Some ''query failed'', None] \<and>
   map snd (finalSends (sendBulkEmails readDownEnv ''c1'' [task ''s1'', task ''s2''] oneLeftW)) =
     [envelope (server ''A'' True 1) (task ''s2'')]"
proof -
  let ?e = readDownEnv and ?x = "JsError ''query failed''"
  let ?w = "started ?e oneLeftW" and ?A = "server ''A'' True 1"
  let ?a = "answered ?e ?w"
  let ?w1 = "failedStep ?e ''c1'' (task ''s1'') ?x ?a"
  let ?w2 = "sentStep ?e ''c1'' (task ''s2'') ?w1"
  have t0: "todayCount oneLeftW ?A = 0"
    by (simp add: todayCount_eval oneLeftW_fields countDocuments_def)
  have r0: "readResult ?e (readCalls oneLeftW) = None"
    by (simp add: readDownEnv_simps oneLeftW_fields)
  have first: "readsFirst ?w" by (simp add: readsFirst_def oneLeftW_started)
  have rej: "readResult ?e (readCalls ?w) = Some ?x"
    by (simp add: readDownEnv_simps oneLeftW_started)
  have t: "trySend ?e ''c1'' (task ''s1'') ?w = Some (Inl (?x, ?a))"
    by (rule trySend_selection_throws [OF awaitNextAvailableSmtp_rejects [OF first rej]])
  have a: "currentSmtpIndex ?a = 0" "smtpQueue ?a = [?A]" "emailLogs ?a = []"
    "readCalls ?a = 2" "sendMailCalls ?a = []" "logEmailCalls ?a = 0" "delays ?a = []"
    by (simp_all add: answered_fields oneLeftW_started)
  have ca: "currentSmtpIndex ?a < length (smtpQueue ?a)" by (simp add: a)
  have ua: "underQuota ?a (smtpQueue ?a ! currentSmtpIndex ?a)"
    by (simp add: underQuota_eval a server_simps)
  have ra: "readResult ?e (readCalls ?a) = None" by (simp add: a readDownEnv_simps)
  have ok: "logEmailResult ?e (logEmailCalls ?a) = None" by (simp add: readDownEnv_simps)
  have p1: "processEmail ?e ''c1'' (task ''s1'') ?w = Some (Inr ((), ?w1))"
    by (simp add: processEmail_caught [OF t] catchError_logged_at_cursor [OF ca ua ra ok])
  have w1: "currentSmtpIndex ?w1 = 0" "smtpQueue ?w1 = [?A]"
    "map status (emailLogs ?w1) = [''failed'']"
    "map error (emailLogs ?w1) = [Some ''query failed'']"
    "sendMailCalls ?w1 = []" "readCalls ?w1 = 3"
    by (simp_all add: failedStep_fields [OF ca] a stored_fields failedEntry_fields)
  have c1: "currentSmtpIndex ?w1 < length (smtpQueue ?w1)" by (simp add: w1)
  have "\<forall>l\<in>set (emailLogs ?w1). status l \<noteq> ''sent''"
    by (simp add: failedStep_fields [OF ca] a stored_fields failedEntry_fields)
  then have u1: "underQuota ?w1 (smtpQueue ?w1 ! currentSmtpIndex ?w1)"
    by (simp add: underQuota_eval w1 server_simps filter_empty_conv [THEN iffD2])
  have r1: "readResult ?e (readCalls ?w1) = None" by (simp add: w1 readDownEnv_simps)
  have p2: "processEmail ?e ''c1'' (task ''s2'') ?w1 = Some (Inr ((), ?w2))"
    by (rule processEmail_sent_at_cursor [OF c1 u1 r1]) (simp_all add: readDownEnv_simps)
  have run: "sendBulkEmails ?e ''c1'' [task ''s1'', task ''s2''] oneLeftW = Some (Inr ((), ?w2))"
    by (simp add: sendBulkEmails_started [OF r0] p1 p2)
  show ?thesis
    unfolding run
    by (simp add: t0 observers sentStep_fields [OF c1] w1 stored_fields sentEntry_fields
          readDownEnv_simps)
qed

text \<open>
  One server at its limit, the batch started ten milliseconds before the local midnight:
  the selection of the first task throws, the day changes while that call is answered,
  and the selection in the \<^verbatim>\<open>catch\<close> block returns the server. The error is logged
  against the first task, which is never sent, and the batch goes on.
\<close>

lemma midnight_between_selections_run:
  "thrownBy (awaitNextAvailableSmtp okEnv (started okEnv lateW)) = Some AllQuotasExhausted \<and>
   thrownBy (sendBulkEmails okEnv ''c1'' [task ''s1'', task ''s2''] lateW) = None \<and>
   map status (finalLogs (sendBulkEmails okEnv ''c1'' [task ''s1'', task ''s2''] lateW)) =
     [''sent'', ''failed'', ''sent''] \<and>
   map subscriberId (finalLogs (sendBulkEmails okEnv ''c1'' [task ''s1'', task ''s2''] lateW)) =
     [''s0'', ''s1'', ''s2''] \<and>
   map error (finalLogs (sendBulkEmails okEnv ''c1'' [task ''s1'', task ''s2''] lateW)) =
     [None, Some ''Daily sending limit reached for all SMTP configurations'', None] \<and>
   length (finalSends (sendBulkEmails okEnv ''c1'' [task ''s1'', task ''s2''] lateW)) = 1"
proof -
  let ?e = okEnv and ?x = AllQuotasExhausted
  let ?w = "started ?e lateW" and ?A = "server ''A'' True 1"
  let ?a = "answered ?e (exhausted ?w)"
  let ?w1 = "failedStep ?e ''c1'' (task ''s1'') ?x ?a"
  let ?w2 = "sentStep ?e ''c1'' (task ''s2'') ?w1"
  have r0: "readResult ?e (readCalls lateW) = None" by (simp add: okEnv_simps)
  have c: "currentSmtpIndex ?w < length (smtpQueue ?w)" by (simp add: lateW_started)
  have ex: "\<forall>c\<in>set (smtpQueue ?w). \<not> underQuota ?w c"
    by (simp add: underQuota_eval lateW_started okEnv_simps server_simps sentDoc_simps days24_first)
  have r: "readResult ?e (readCalls ?w) = None" by (simp add: okEnv_simps)
  have sel: "awaitNextAvailableSmtp ?e ?w = Some (Inl (?x, ?a))"
    by (rule awaitNextAvailableSmtp_none_under_quota [OF c ex r])
  have t: "trySend ?e ''c1'' (task ''s1'') ?w = Some (Inl (?x, ?a))"
    by (rule trySend_selection_throws [OF sel])
  have a: "currentSmtpIndex ?a = 0" "smtpQueue ?a = [?A]" "emailLogs ?a = [sentDoc ''A'' 10]"
    "clock ?a = 86400000" "localMidnight ?a = days24"
    "sendMailCalls ?a = []" "logEmailCalls ?a = 0" "delays ?a = []"
    by (simp_all add: answered_exhausted_fields lateW_started okEnv_simps)
  have ca: "currentSmtpIndex ?a < length (smtpQueue ?a)" by (simp add: a)
  have ua: "underQuota ?a (smtpQueue ?a ! currentSmtpIndex ?a)"
    by (simp add: underQuota_eval a server_simps sentDoc_simps days24_second)
  have ra: "readResult ?e (readCalls ?a) = None" by (simp add: okEnv_simps)
  have ok: "logEmailResult ?e (logEmailCalls ?a) = None" by (simp add: okEnv_simps)
  have p1: "processEmail ?e ''c1'' (task ''s1'') ?w = Some (Inr ((), ?w1))"
    by (simp add: processEmail_caught [OF t] catchError_logged_at_cursor [OF ca ua ra ok])
  have w1: "currentSmtpIndex ?w1 = 0" "smtpQueue ?w1 = [?A]"
    "emailLogs ?w1 = [sentDoc ''A'' 10, stored (failedEntry ?A ''c1'' (task ''s1'') ?x) 86400005]"
    "clock ?w1 = 86404026" "localMidnight ?w1 = days24" "sendMailCalls ?w1 = []"
    by (simp_all add: failedStep_fields [OF ca] a okEnv_simps RATE_LIMIT_DELAY_def)
  have c1: "currentSmtpIndex ?w1 < length (smtpQueue ?w1)" by (simp add: w1)
  have u1: "underQuota ?w1 (smtpQueue ?w1 ! currentSmtpIndex ?w1)"
    by (simp add: underQuota_eval w1 server_simps sentDoc_simps stored_fields failedEntry_fields
          days24_second)
  have p2: "processEmail ?e ''c1'' (task ''s2'') ?w1 = Some (Inr ((), ?w2))"
    by (rule processEmail_sent_at_cursor [OF c1 u1]) (simp_all add: okEnv_simps)
  have run: "sendBulkEmails ?e ''c1'' [task ''s1'', task ''s2''] lateW = Some (Inr ((), ?w2))"
    by (simp add: sendBulkEmails_started [OF r0] p1 p2)
  have xt: "errorText ?x = ''Daily sending limit reached for all SMTP configurations''"
    by (simp add: AllQuotasExhausted_def)
  show ?thesis
    unfolding run sel
    by (simp add: observers sentStep_fields [OF c1] w1 stored_fields sentEntry_fields
          failedEntry_fields sentDoc_simps okEnv_simps task_simps xt)
qed

text \<open>
  Two servers, the first with one message left today: its send throws while another
  writer records a message sent by it, and the selection in the \<^verbatim>\<open>catch\<close> block
  returns the second server.
\<close>

lemma race_run:
  defines "w \<equiv> started raceEnv raceW"
  defines "a \<equiv> attempted raceEnv (server ''A'' True 1) (task ''s1'') (answered raceEnv (selected w 0))"
  shows "awaitNextAvailableSmtp raceEnv w =
           Some (Inr (server ''A'' True 1, answered raceEnv (selected w 0)))"
    and "sendMailResult raceEnv (length (sendMailCalls w)) = Some (JsError ''Connection timeout'')"
    and "awaitNextAvailableSmtp raceEnv a =
           Some (Inr (server ''B'' False 5, answered raceEnv (selected a 1)))"
    and "logEmailResult raceEnv (logEmailCalls w) = None"
    and "t_host (fst (getTransport (server ''A'' True 1) (answered raceEnv (selected w 0)))) =
           ''A.example.org''"
proof -
  have c: "currentSmtpIndex w < length (smtpQueue w)" by (simp add: w_def raceW_started)
  have u: "underQuota w (smtpQueue w ! currentSmtpIndex w)"
    by (simp add: w_def underQuota_eval raceW_started server_simps)
  have r: "readResult raceEnv (readCalls w) = None" by (simp add: raceEnv_simps)
  show "awaitNextAvailableSmtp raceEnv w =
          Some (Inr (server ''A'' True 1, answered raceEnv (selected w 0)))"
    using awaitNextAvailableSmtp_at_cursor [OF c u r] by (simp add: w_def raceW_started)
  show "sendMailResult raceEnv (length (sendMailCalls w)) = Some (JsError ''Connection timeout'')"
    by (simp add: w_def raceW_started raceEnv_simps)
  have af: "currentSmtpIndex a = 0" "smtpQueue a = [server ''A'' True 1, server ''B'' False 5]"
    "emailLogs a = [sentDoc ''A'' 1100]" "clock a = 1310" "localMidnight a = days24"
    using attempted_selected_fields [OF c, of raceEnv "server ''A'' True 1" "task ''s1''"]
    by (simp_all add: a_def w_def raceW_started raceEnv_simps)
  have ca: "currentSmtpIndex a < length (smtpQueue a)" and ka: "1 < length (smtpQueue a)"
    by (simp_all add: af)
  have p: "scanPosition a 0 = 0" "scanPosition a (Suc 0) = Suc 0"
    by (simp_all add: scanPosition_def af)
  have ex: "\<forall>i<1. \<not> underQuota a (smtpQueue a ! scanPosition a i)"
    by (simp add: p underQuota_eval af server_simps sentDoc_simps days24_first)
  have uq: "underQuota a (smtpQueue a ! scanPosition a 1)"
    by (simp add: p underQuota_eval af server_simps sentDoc_simps)
  have ra: "readResult raceEnv (readCalls a) = None" by (simp add: raceEnv_simps)
  show "awaitNextAvailableSmtp raceEnv a =
          Some (Inr (server ''B'' False 5, answered raceEnv (selected a 1)))"
    using awaitNextAvailableSmtp_found [OF ca ka ex uq ra] by (simp add: p af)
  show "logEmailResult raceEnv (logEmailCalls w) = None" by (simp add: raceEnv_simps)
  have "transports (answered raceEnv (selected w 0)) (smtp_id (server ''A'' True 1)) = None"
    by (simp add: answered_fields selected_all_fields w_def raceW_started)
  from getTransport_first [OF this]
  show "t_host (fst (getTransport (server ''A'' True 1) (answered raceEnv (selected w 0)))) =
          ''A.example.org''"
    by (simp add: createTransport_def server_def)
qed

section \<open>The claims\<close>

subsection \<open>C1: the first server under quota\<close>

text \<open>
  Claim C1. On a non-empty queue with a valid cursor, in which some server has a count of
  today strictly below its \<^verbatim>\<open>dailyLimit\<close>, \<^verbatim>\<open>getNextAvailableSmtp\<close> returns a
  server that is under quota: the one at the first position, in queue order from the
  cursor and wrapping around, whose server is under quota. The cursor is left at that
  position, and a second call in the state the first one leaves returns the same server
  after examining that position only.
\<close>

theorem nextAvailable_first_under_quota:
  assumes q: "smtpQueue w \<noteq> []" and c: "currentSmtpIndex w < length (smtpQueue w)"
    and ex: "\<exists>c\<in>set (smtpQueue w). underQuota w c"
  shows "\<exists>k<length (smtpQueue w).
           getNextAvailableSmtp w = Some (Inr (smtpQueue w ! scanPosition w k, selected w k)) \<and>
           underQuota w (smtpQueue w ! scanPosition w k) \<and>
           (\<forall>i<k. \<not> underQuota w (smtpQueue w ! scanPosition w i)) \<and>
           currentSmtpIndex (selected w k) = scanPosition w k \<and>
           getNextAvailableSmtp (selected w k) =
             Some (Inr (smtpQueue w ! scanPosition w k, selected (selected w k) 0))"
proof -
  from least_under_quota [OF c ex] obtain k where k: "k < length (smtpQueue w)"
    and uq: "underQuota w (smtpQueue w ! scanPosition w k)"
    and sk: "\<forall>i<k. \<not> underQuota w (smtpQueue w ! scanPosition w i)" by blast
  have first: "getNextAvailableSmtp w = Some (Inr (smtpQueue w ! scanPosition w k, selected w k))"
    using smtpScan_found [OF c k sk uq] q by (simp add: getNextAvailableSmtp_nonempty)
  let ?w = "selected w k"
  have q': "smtpQueue ?w \<noteq> []" using q by (simp add: selected_fields)
  have c': "currentSmtpIndex ?w < length (smtpQueue ?w)"
    using q by (simp add: selected_fields scanPosition_less)
  have p0: "scanPosition ?w 0 = scanPosition w k" using q by (rule scanPosition_selected_0)
  have "underQuota ?w (smtpQueue w ! scanPosition w k) = underQuota w (smtpQueue w ! scanPosition w k)"
    by (rule underQuota_cong) (simp_all add: selected_fields)
  with uq p0 have uq': "underQuota ?w (smtpQueue ?w ! scanPosition ?w 0)"
    by (simp add: selected_fields)
  have "0 < length (smtpQueue ?w)" using q' by simp
  from smtpScan_found [OF c' this _ uq'] q' p0
  have again: "getNextAvailableSmtp ?w =
             Some (Inr (smtpQueue w ! scanPosition w k, selected ?w 0))"
    by (simp add: getNextAvailableSmtp_nonempty selected_fields)
  from k first uq sk again show ?thesis by (auto simp: selected_fields)
qed

text \<open>
  The theorem at a queue of two servers, the cursor at the first, which has reached its
  limit: the second server is returned.
\<close>

theorem nextAvailable_first_under_quota_witness:
  "getNextAvailableSmtp rotW = Some (Inr (server ''B'' False 5, selected rotW 1))"
proof -
  have uA: "\<not> underQuota rotW (server ''A'' True 1)"
    by (simp add: underQuota_eval rotW_fields server_simps sentDoc_simps days24_first)
  have uB: "underQuota rotW (server ''B'' False 5)"
    by (simp add: underQuota_eval rotW_fields server_simps sentDoc_simps days24_first)
  have h1: "smtpQueue rotW \<noteq> []" and h2: "currentSmtpIndex rotW < length (smtpQueue rotW)"
    and h3: "\<exists>c\<in>set (smtpQueue rotW). underQuota rotW c"
    using uB by (simp_all add: rotW_fields)
  from nextAvailable_first_under_quota [OF h1 h2 h3]
  obtain k where k: "k < length (smtpQueue rotW)"
    and r: "getNextAvailableSmtp rotW = Some (Inr (smtpQueue rotW ! scanPosition rotW k, selected rotW k))"
    and u: "underQuota rotW (smtpQueue rotW ! scanPosition rotW k)"
    by blast
  from k have "k = 0 \<or> k = 1" by (auto simp: rotW_fields)
  then show ?thesis
  proof
    assume "k = 0"
    with u uA show ?thesis by (simp add: scanPosition_def rotW_fields)
  next
    assume "k = 1"
    with r show ?thesis by (simp add: scanPosition_def rotW_fields)
  qed
qed

subsection \<open>C2: a send that fails\<close>

text \<open>
  Claim C2, amended. When the send of a task throws, the \<^verbatim>\<open>catch\<close> block selects a
  server again and, provided that selection returns a server and the write of the log
  entry succeeds, exactly one entry is written for the task, with status
  \<^verbatim>\<open>failed\<close> and the text of the error; the loop then goes on with the next task.
\<close>

theorem failed_send_logged_once_then_next:
  assumes pre: "sendBulkEmails e campaign before w0 = Some (Inr ((), w))"
    and sel: "awaitNextAvailableSmtp e w = Some (Inr (c, w1))"
    and rej: "sendMailResult e (length (sendMailCalls w)) = Some x"
    and resel: "awaitNextAvailableSmtp e (attempted e c em w1) = Some (Inr (c', w2))"
    and ok: "logEmailResult e (logEmailCalls w) = None"
  shows "\<exists>w'. processEmail e campaign em w = Some (Inr ((), w')) \<and>
           emailLogs w' = emailLogs w @ foreignWrites e (length (sendMailCalls w)) @
                            [stored (failedEntry c' campaign em x) (clock w2)] \<and>
           status (last (emailLogs w')) = ''failed'' \<and>
           error (last (emailLogs w')) = Some (errorText x) \<and>
           subscriberId (last (emailLogs w')) = email_subscriberId em \<and>
           logEmailCalls w' = logEmailCalls w + 1 \<and>
           sendBulkEmails e campaign (before @ em # rest) w0 = sendLoop e campaign rest w'"
proof -
  let ?a = "attempted e c em w1"
  let ?w' = "delay e (RATE_LIMIT_DELAY * 2) (logged e (failedEntry c' campaign em x) w2)"
  have f1: "selectionOnly e w w1" by (rule awaitNextAvailableSmtp_returns_frame [OF sel])
  have f2: "selectionOnly e ?a w2" by (rule awaitNextAvailableSmtp_returns_frame [OF resel])
  have t: "trySend e campaign em w = Some (Inl (x, ?a))"
    by (rule trySend_send_rejects [OF sel rej])
  have "logEmailCalls ?a = logEmailCalls w" using f1 by (simp add: attempted_fields selectionOnly_def)
  with ok have ok': "logEmailResult e (logEmailCalls ?a) = None" by simp
  have p: "processEmail e campaign em w = Some (Inr ((), ?w'))"
    by (simp add: processEmail_caught [OF t] catchError_completes [OF resel ok'])
  have logs: "emailLogs ?w' = emailLogs w @ foreignWrites e (length (sendMailCalls w)) @
                            [stored (failedEntry c' campaign em x) (clock w2)]"
    using f1 f2 by (simp add: delay_fields logged_fields attempted_fields selectionOnly_def)
  have calls: "logEmailCalls ?w' = logEmailCalls w + 1"
    using f1 f2 by (simp add: delay_fields logged_fields attempted_fields selectionOnly_def)
  have "sendBulkEmails e campaign (before @ em # rest) w0 = sendLoop e campaign rest ?w'"
    by (simp add: sendBulkEmails_append [OF pre] p)
  with p logs calls show ?thesis
    by (intro exI [of _ ?w']) (simp add: stored_fields failedEntry_fields)
qed

text \<open>
  The theorem at a batch of two tasks over one server, the first send rejected.
\<close>

theorem failed_send_logged_once_then_next_witness:
  "\<exists>w'. processEmail timeoutEnv ''c1'' (task ''s1'') (started timeoutEnv freshW) =
          Some (Inr ((), w')) \<and>
        map status (emailLogs w') = [''failed''] \<and>
        map error (emailLogs w') = [Some ''Connection timeout''] \<and>
        sendBulkEmails timeoutEnv ''c1'' [task ''s1'', task ''s2''] freshW =
          sendLoop timeoutEnv ''c1'' [task ''s2''] w'"
proof -
  let ?e = timeoutEnv
  let ?w = "started ?e freshW" and ?A = "server ''A'' True 5"
  let ?a = "attempted ?e ?A (task ''s1'') (answered ?e (selected ?w 0))"
  have r0: "readResult ?e (readCalls freshW) = None" by (simp add: timeoutEnv_simps)
  have c: "currentSmtpIndex ?w < length (smtpQueue ?w)" by (simp add: freshW_started)
  have u: "underQuota ?w (smtpQueue ?w ! currentSmtpIndex ?w)"
    by (simp add: underQuota_eval freshW_started server_simps)
  have r: "readResult ?e (readCalls ?w) = None" by (simp add: timeoutEnv_simps)
  have sel: "awaitNextAvailableSmtp ?e ?w = Some (Inr (?A, answered ?e (selected ?w 0)))"
    using awaitNextAvailableSmtp_at_cursor [OF c u r] by (simp add: freshW_started)
  have rej: "sendMailResult ?e (length (sendMailCalls ?w)) = Some (JsError ''Connection timeout'')"
    by (simp add: timeoutEnv_simps freshW_started)
  have a: "currentSmtpIndex ?a = 0" "smtpQueue ?a = [?A]" "emailLogs ?a = []"
    by (simp_all add: attempted_selected_fields [OF c] freshW_started timeoutEnv_simps)
  have ca: "currentSmtpIndex ?a < length (smtpQueue ?a)" by (simp add: a)
  have ua: "underQuota ?a (smtpQueue ?a ! currentSmtpIndex ?a)"
    by (simp add: underQuota_eval a server_simps)
  have ra: "readResult ?e (readCalls ?a) = None" by (simp add: timeoutEnv_simps)
  have resel: "awaitNextAvailableSmtp ?e ?a = Some (Inr (?A, answered ?e (selected ?a 0)))"
    using awaitNextAvailableSmtp_at_cursor [OF ca ua ra] by (simp add: a)
  have ok: "logEmailResult ?e (logEmailCalls ?w) = None"
    by (simp add: timeoutEnv_simps)
  from failed_send_logged_once_then_next [OF sendBulkEmails_nil [OF r0] sel rej resel ok,
      of "''c1''" "[task ''s2'']"]
  show ?thesis
    by (auto simp: freshW_started timeoutEnv_simps stored_fields failedEntry_fields)
qed

text \<open>
  Claim C2 as stated fails, in two ways. In the first run the first send throws and the
  write of the log entry throws too: that error leaves \<^verbatim>\<open>sendBulkEmails\<close>, the log
  is empty and the second task was never handed to a transport. In the second run the
  pool is one server with one message left today; the first send throws while another
  writer records a message sent by that server; every write succeeds, but the selection
  in the \<^verbatim>\<open>catch\<close> block throws "Daily sending limit reached for all SMTP
  configurations": the batch ends, the only document of the log is the other writer's,
  and the second task was never handed to a transport.
\<close>

theorem failed_send_can_abort_counterexample:
  "(thrownBy (sendBulkEmails timeoutDownEnv ''c1'' [task ''s1'', task ''s2''] freshW) =
   Some (JsError ''database unavailable'') \<and>
   finalLogs (sendBulkEmails timeoutDownEnv ''c1'' [task ''s1'', task ''s2''] freshW) = [] \<and>
   length (finalSends (sendBulkEmails timeoutDownEnv ''c1'' [task ''s1'', task ''s2''] freshW)) = 1) \<and>
  (thrownBy (sendBulkEmails raceEnv ''c1'' [task ''s1'', task ''s2''] oneLeftW) =
   Some AllQuotasExhausted \<and>
   map subscriberId (finalLogs (sendBulkEmails raceEnv ''c1'' [task ''s1'', task ''s2''] oneLeftW)) =
   [''s0''] \<and>
   length (finalSends (sendBulkEmails raceEnv ''c1'' [task ''s1'', task ''s2''] oneLeftW)) = 1)"
  by (rule conjI [OF log_down_run quota_race_run])

subsection \<open>C3: a selection that fails\<close>

text \<open>
  Claim C3, amended. Let a batch have reached one of its tasks, the tasks before it
  handled without an exception. The \<^verbatim>\<open>catch\<close> block catches what the call of
  \<^verbatim>\<open>getNextAvailableSmtp\<close> in the \<^verbatim>\<open>try\<close> block throws, and calls
  \<^verbatim>\<open>getNextAvailableSmtp\<close> again. If that second call throws too, its error leaves
  \<^verbatim>\<open>sendBulkEmails\<close>, and since the start of the task no message was handed to a
  transport, no log entry written and no delay made. More generally, whatever the
  \<^verbatim>\<open>try\<close> block threw, an error thrown by the call in the \<^verbatim>\<open>catch\<close> block leaves
  \<^verbatim>\<open>sendBulkEmails\<close> at once, and nothing is sent, logged or waited for after that
  call. If the second call returns a server and the write succeeds, the error of the
  first call is logged as a \<^verbatim>\<open>failed\<close> entry and the loop goes on with the next task.
  The statement holds for every thrown value, so for the two errors of the claim.
\<close>

theorem selection_failure_aborts_batch:
  assumes pre: "sendBulkEmails e campaign before w0 = Some (Inr ((), w))"
  shows "(\<forall>x w1 y w2.
            awaitNextAvailableSmtp e w = Some (Inl (x, w1)) \<and>
            awaitNextAvailableSmtp e w1 = Some (Inl (y, w2)) \<longrightarrow>
              sendBulkEmails e campaign (before @ em # rest) w0 = Some (Inl (y, w2)) \<and>
              sendMailCalls w2 = sendMailCalls w \<and> emailLogs w2 = emailLogs w \<and>
              logEmailCalls w2 = logEmailCalls w \<and> delays w2 = delays w) \<and>
         (\<forall>caught w2 x w3.
            trySend e campaign em w = Some (Inl (caught, w2)) \<and>
            awaitNextAvailableSmtp e w2 = Some (Inl (x, w3)) \<longrightarrow>
              sendBulkEmails e campaign (before @ em # rest) w0 = Some (Inl (x, w3)) \<and>
              sendMailCalls w3 = sendMailCalls w2 \<and> emailLogs w3 = emailLogs w2 \<and>
              logEmailCalls w3 = logEmailCalls w2 \<and> delays w3 = delays w2) \<and>
         (\<forall>x w1 c' w2.
            awaitNextAvailableSmtp e w = Some (Inl (x, w1)) \<and>
            awaitNextAvailableSmtp e w1 = Some (Inr (c', w2)) \<and>
            logEmailResult e (logEmailCalls w) = None \<longrightarrow>
              (\<exists>w'. processEmail e campaign em w = Some (Inr ((), w')) \<and>
                    emailLogs w' = emailLogs w @ [stored (failedEntry c' campaign em x) (clock w2)] \<and>
                    sendMailCalls w' = sendMailCalls w \<and>
                    sendBulkEmails e campaign (before @ em # rest) w0 =
                      sendLoop e campaign rest w'))"
proof (intro conjI allI impI)
  fix x w1 y w2
  assume a: "awaitNextAvailableSmtp e w = Some (Inl (x, w1)) \<and>
             awaitNextAvailableSmtp e w1 = Some (Inl (y, w2))"
  then have "processEmail e campaign em w = Some (Inl (y, w2))"
    by (simp add: processEmail_selection_throws_twice)
  then show "sendBulkEmails e campaign (before @ em # rest) w0 = Some (Inl (y, w2))"
    by (simp add: sendBulkEmails_append [OF pre])
  from a have f: "selectionOnly e w w1" "selectionOnly e w1 w2"
    by (simp_all add: awaitNextAvailableSmtp_throws_frame)
  then show "sendMailCalls w2 = sendMailCalls w" "emailLogs w2 = emailLogs w"
    "logEmailCalls w2 = logEmailCalls w" "delays w2 = delays w"
    by (simp_all add: selectionOnly_def)
next
  fix caught w2 x w3
  assume a: "trySend e campaign em w = Some (Inl (caught, w2)) \<and>
             awaitNextAvailableSmtp e w2 = Some (Inl (x, w3))"
  then have "processEmail e campaign em w = Some (Inl (x, w3))"
    by (simp add: processEmail_caught catchError_selection_throws)
  then show "sendBulkEmails e campaign (before @ em # rest) w0 = Some (Inl (x, w3))"
    by (simp add: sendBulkEmails_append [OF pre])
  from a have "selectionOnly e w2 w3" by (simp add: awaitNextAvailableSmtp_throws_frame)
  then show "sendMailCalls w3 = sendMailCalls w2" "emailLogs w3 = emailLogs w2"
    "logEmailCalls w3 = logEmailCalls w2" "delays w3 = delays w2"
    by (simp_all add: selectionOnly_def)
next
  fix x w1 c' w2
  assume a: "awaitNextAvailableSmtp e w = Some (Inl (x, w1)) \<and>
             awaitNextAvailableSmtp e w1 = Some (Inr (c', w2)) \<and>
             logEmailResult e (logEmailCalls w) = None"
  let ?w' = "delay e (RATE_LIMIT_DELAY * 2) (logged e (failedEntry c' campaign em x) w2)"
  from a have first: "awaitNextAvailableSmtp e w = Some (Inl (x, w1))"
    and second: "awaitNextAvailableSmtp e w1 = Some (Inr (c', w2))"
    and ok: "logEmailResult e (logEmailCalls w) = None" by simp_all
  have f: "selectionOnly e w w1" "selectionOnly e w1 w2"
    by (rule awaitNextAvailableSmtp_throws_frame [OF first])
       (rule awaitNextAvailableSmtp_returns_frame [OF second])
  from f(1) ok have ok': "logEmailResult e (logEmailCalls w1) = None"
    by (simp add: selectionOnly_def)
  have p: "processEmail e campaign em w = Some (Inr ((), ?w'))"
    by (simp add: processEmail_caught [OF trySend_selection_throws [OF first]]
          catchError_completes [OF second ok'])
  moreover have "emailLogs ?w' = emailLogs w @ [stored (failedEntry c' campaign em x) (clock w2)]"
    "sendMailCalls ?w' = sendMailCalls w"
    using f by (simp_all add: delay_fields logged_fields selectionOnly_def)
  moreover have "sendBulkEmails e campaign (before @ em # rest) w0 = sendLoop e campaign rest ?w'"
    by (simp add: sendBulkEmails_append [OF pre] p)
  ultimately show "\<exists>w'. processEmail e campaign em w = Some (Inr ((), w')) \<and>
                    emailLogs w' = emailLogs w @ [stored (failedEntry c' campaign em x) (clock w2)] \<and>
                    sendMailCalls w' = sendMailCalls w \<and>
                    sendBulkEmails e campaign (before @ em # rest) w0 =
                      sendLoop e campaign rest w'"
    by blast
qed

text \<open>
  The theorem at a batch of two tasks over one server at its limit, early in the day:
  both calls throw, the error leaves the batch, nothing is sent and the log is as it was.
\<close>

theorem selection_failure_aborts_batch_witness:
  "thrownBy (sendBulkEmails okEnv ''c1'' [task ''s1'', task ''s2''] spentW) = Some AllQuotasExhausted \<and>
   finalLogs (sendBulkEmails okEnv ''c1'' [task ''s1'', task ''s2''] spentW) = [sentDoc ''A'' 10] \<and>
   finalSends (sendBulkEmails okEnv ''c1'' [task ''s1'', task ''s2''] spentW) = []"
proof -
  let ?e = okEnv
  let ?w = "started ?e spentW"
  let ?w1 = "answered ?e (exhausted ?w)"
  let ?w2 = "answered ?e (exhausted ?w1)"
  have r0: "readResult ?e (readCalls spentW) = None" by (simp add: okEnv_simps)
  have c: "currentSmtpIndex ?w < length (smtpQueue ?w)" by (simp add: spentW_started)
  have ex: "\<forall>c\<in>set (smtpQueue ?w). \<not> underQuota ?w c"
    by (simp add: underQuota_eval spentW_started okEnv_simps server_simps sentDoc_simps
          days24_first)
  have r: "readResult ?e (readCalls ?w) = None" by (simp add: okEnv_simps)
  have first: "awaitNextAvailableSmtp ?e ?w = Some (Inl (AllQuotasExhausted, ?w1))"
    by (rule awaitNextAvailableSmtp_none_under_quota [OF c ex r])
  have w1: "currentSmtpIndex ?w1 = 0" "smtpQueue ?w1 = [server ''A'' True 1]"
    "emailLogs ?w1 = [sentDoc ''A'' 10]" "clock ?w1 = 1010" "localMidnight ?w1 = days24"
    by (simp_all add: answered_exhausted_fields spentW_started okEnv_simps)
  have c1: "currentSmtpIndex ?w1 < length (smtpQueue ?w1)" by (simp add: w1)
  have ex1: "\<forall>c\<in>set (smtpQueue ?w1). \<not> underQuota ?w1 c"
    by (simp add: underQuota_eval w1 server_simps sentDoc_simps days24_first)
  have r1: "readResult ?e (readCalls ?w1) = None" by (simp add: okEnv_simps)
  have second: "awaitNextAvailableSmtp ?e ?w1 = Some (Inl (AllQuotasExhausted, ?w2))"
    by (rule awaitNextAvailableSmtp_none_under_quota [OF c1 ex1 r1])
  from selection_failure_aborts_batch [OF sendBulkEmails_nil [OF r0],
      where campaign = "''c1''" and em = "task ''s1''" and rest = "[task ''s2'']"] first second
  have "sendBulkEmails ?e ''c1'' ([] @ task ''s1'' # [task ''s2'']) spentW =
          Some (Inl (AllQuotasExhausted, ?w2)) \<and>
        sendMailCalls ?w2 = sendMailCalls ?w \<and> emailLogs ?w2 = emailLogs ?w"
    by blast
  then have run: "sendBulkEmails ?e ''c1'' [task ''s1'', task ''s2''] spentW =
          Some (Inl (AllQuotasExhausted, ?w2))"
    and same: "sendMailCalls ?w2 = sendMailCalls ?w" "emailLogs ?w2 = emailLogs ?w"
    by simp_all
  show ?thesis
    unfolding run by (simp add: observers same spentW_started)
qed

text \<open>
  Claim C3 as stated fails. One server at its limit, the batch started ten milliseconds
  before the local midnight: the call of \<^verbatim>\<open>getNextAvailableSmtp\<close> that opens the
  first task throws "Daily sending limit reached for all SMTP configurations"; midnight
  passes while that call is answered, and the call in the \<^verbatim>\<open>catch\<close> block finds a
  count of 0 and returns the server. The error does not leave \<^verbatim>\<open>sendBulkEmails\<close>: it
  is logged as a \<^verbatim>\<open>failed\<close> entry for the first task, the second task is sent and
  logged, and the batch returns.
\<close>

theorem selection_error_logged_batch_goes_on_counterexample:
  "thrownBy (awaitNextAvailableSmtp okEnv (started okEnv lateW)) = Some AllQuotasExhausted \<and>
   thrownBy (sendBulkEmails okEnv ''c1'' [task ''s1'', task ''s2''] lateW) = None \<and>
   map status (finalLogs (sendBulkEmails okEnv ''c1'' [task ''s1'', task ''s2''] lateW)) =
     [''sent'', ''failed'', ''sent''] \<and>
   map subscriberId (finalLogs (sendBulkEmails okEnv ''c1'' [task ''s1'', task ''s2''] lateW)) =
     [''s0'', ''s1'', ''s2''] \<and>
   map error (finalLogs (sendBulkEmails okEnv ''c1'' [task ''s1'', task ''s2''] lateW)) =
     [None, Some ''Daily sending limit reached for all SMTP configurations'', None] \<and>
   length (finalSends (sendBulkEmails okEnv ''c1'' [task ''s1'', task ''s2''] lateW)) = 1"
  by (rule midnight_between_selections_run)

subsection \<open>C4: every server at its limit\<close>

text \<open>
  Claim C4. On a non-empty queue with a valid cursor, in which no server is under quota,
  \<^verbatim>\<open>getNextAvailableSmtp\<close> returns (it does not run forever): it throws the error
  "Daily sending limit reached for all SMTP configurations" with the cursor back at the
  index it started from, after one count query for each position of the queue, each
  position examined exactly once, in queue order from the cursor.
\<close>

theorem nextAvailable_all_exhausted:
  assumes q: "smtpQueue w \<noteq> []" and c: "currentSmtpIndex w < length (smtpQueue w)"
    and ex: "\<forall>c\<in>set (smtpQueue w). \<not> underQuota w c"
  shows "getNextAvailableSmtp w = Some (Inl (AllQuotasExhausted, exhausted w)) \<and>
         currentSmtpIndex (exhausted w) = currentSmtpIndex w \<and>
         countQueries (exhausted w) = countQueries w @
           map (\<lambda>p. smtp_id (smtpQueue w ! p)) (map (scanPosition w) [0..<length (smtpQueue w)]) \<and>
         distinct (map (scanPosition w) [0..<length (smtpQueue w)]) \<and>
         length (map (scanPosition w) [0..<length (smtpQueue w)]) = length (smtpQueue w)"
proof -
  have "\<forall>i<length (smtpQueue w). \<not> underQuota w (smtpQueue w ! scanPosition w i)"
    using ex q by (simp add: scanPosition_less)
  from smtpScan_exhausted [OF c this] q
  have "getNextAvailableSmtp w = Some (Inl (AllQuotasExhausted, exhausted w))"
    by (simp add: getNextAvailableSmtp_nonempty)
  moreover have "distinct (map (scanPosition w) [0..<length (smtpQueue w)])"
    using scanPosition_inj [of w] by (simp add: distinct_map)
  ultimately show ?thesis by (simp add: exhausted_def comp_def)
qed

text \<open>
  The theorem at a queue of two servers, both at their limit, the cursor at the second:
  the error is thrown after the queries for the second and then the first server.
\<close>

theorem nextAvailable_all_exhausted_witness:
  "getNextAvailableSmtp fullW = Some (Inl (AllQuotasExhausted, exhausted fullW)) \<and>
   countQueries (exhausted fullW) = [''B'', ''A'']"
proof -
  have h1: "smtpQueue fullW \<noteq> []" and h2: "currentSmtpIndex fullW < length (smtpQueue fullW)"
    by (simp_all add: fullW_fields)
  have h3: "\<forall>c\<in>set (smtpQueue fullW). \<not> underQuota fullW c"
    by (simp add: underQuota_eval fullW_fields server_simps sentDoc_simps days24_first)
  have "[0..<2] = [0, Suc 0]" by (simp add: upt_rec)
  with nextAvailable_all_exhausted [OF h1 h2 h3] show ?thesis
    by (simp add: fullW_fields scanPosition_def server_simps)
qed

subsection \<open>C5: the default server first\<close>

text \<open>
  Claim C5. \<^verbatim>\<open>refreshSmtpQueue\<close> sets the cursor to 0. When no stored configuration
  is a default, the queue is the stored list. Otherwise the queue is the first default of
  the stored list followed by the configurations that are not defaults, in their stored
  order, and if that default server is under quota, the call of
  \<^verbatim>\<open>getNextAvailableSmtp\<close> that follows returns it, after one count query. When the
  stored list has one default only (the invariant of the data model), the configurations
  that follow it in the queue are all the others.
\<close>

theorem refresh_default_first:
  "currentSmtpIndex (refreshSmtpQueue w) = 0 \<and>
   (find isDefault (smtpConfigs w) = None \<longrightarrow>
      smtpQueue (refreshSmtpQueue w) = smtpConfigs w) \<and>
   (\<forall>d. find isDefault (smtpConfigs w) = Some d \<longrightarrow>
      isDefault d \<and> d \<in> set (smtpConfigs w) \<and>
      smtpQueue (refreshSmtpQueue w) = d # filter (\<lambda>c. \<not> isDefault c) (smtpConfigs w) \<and>
      (underQuota w d \<longrightarrow>
         getNextAvailableSmtp (refreshSmtpQueue w) =
           Some (Inr (d, selected (refreshSmtpQueue w) 0)))) \<and>
   (\<forall>pre d post.
      smtpConfigs w = pre @ d # post \<and> isDefault d \<and>
      (\<forall>c\<in>set pre \<union> set post. \<not> isDefault c) \<longrightarrow>
        find isDefault (smtpConfigs w) = Some d \<and>
        smtpQueue (refreshSmtpQueue w) = d # pre @ post)"
proof (intro conjI allI impI)
  show "currentSmtpIndex (refreshSmtpQueue w) = 0" by (simp add: refreshSmtpQueue_fields)
next
  assume "find isDefault (smtpConfigs w) = None"
  then show "smtpQueue (refreshSmtpQueue w) = smtpConfigs w" by (simp add: refreshSmtpQueue_queue)
next
  fix d
  assume f: "find isDefault (smtpConfigs w) = Some d"
  from find_is_first [OF f] show "isDefault d" and "d \<in> set (smtpConfigs w)" by simp_all
  from f show q: "smtpQueue (refreshSmtpQueue w) = d # filter (\<lambda>c. \<not> isDefault c) (smtpConfigs w)"
    by (simp add: refreshSmtpQueue_queue)
  assume u: "underQuota w d"
  let ?w = "refreshSmtpQueue w"
  have c: "currentSmtpIndex ?w < length (smtpQueue ?w)" using q by (simp add: refreshSmtpQueue_fields)
  have "underQuota ?w d = underQuota w d"
    by (rule underQuota_rotatedOnly) (rule rotatedOnly_refresh)
  with u q have "underQuota ?w (smtpQueue ?w ! currentSmtpIndex ?w)"
    by (simp add: refreshSmtpQueue_fields)
  from getNextAvailableSmtp_at_cursor [OF c this] q
  show "getNextAvailableSmtp ?w = Some (Inr (d, selected ?w 0))"
    by (simp add: refreshSmtpQueue_fields)
next
  fix pre d post
  assume a: "smtpConfigs w = pre @ d # post \<and> isDefault d \<and>
      (\<forall>c\<in>set pre \<union> set post. \<not> isDefault c)"
  then show f: "find isDefault (smtpConfigs w) = Some d" by (simp add: find_unique)
  moreover have "filter (\<lambda>c. \<not> isDefault c) (smtpConfigs w) = pre @ post"
    using a by (simp add: filter_unique)
  ultimately show "smtpQueue (refreshSmtpQueue w) = d # pre @ post"
    by (simp add: refreshSmtpQueue_queue)
qed

text \<open>
  The theorem at a stored list of three configurations, the second the default.
\<close>

theorem refresh_default_first_witness:
  "smtpQueue (refreshSmtpQueue poolW) = [server ''A'' True 2, server ''B'' False 5, server ''C'' False 7] \<and>
   getNextAvailableSmtp (refreshSmtpQueue poolW) =
     Some (Inr (server ''A'' True 2, selected (refreshSmtpQueue poolW) 0))"
proof -
  have u: "underQuota poolW (server ''A'' True 2)"
    by (simp add: underQuota_eval poolW_fields server_simps)
  have s: "smtpConfigs poolW = [server ''B'' False 5] @ server ''A'' True 2 # [server ''C'' False 7] \<and>
      isDefault (server ''A'' True 2) \<and>
      (\<forall>c\<in>set [server ''B'' False 5] \<union> set [server ''C'' False 7]. \<not> isDefault c)"
    by (simp add: poolW_fields server_simps)
  note inst = refresh_default_first [of poolW]
  from inst s have f: "find isDefault (smtpConfigs poolW) = Some (server ''A'' True 2)"
    and q: "smtpQueue (refreshSmtpQueue poolW) = server ''A'' True 2 # [server ''B'' False 5] @ [server ''C'' False 7]"
    by blast+
  from inst f u have "getNextAvailableSmtp (refreshSmtpQueue poolW) =
     Some (Inr (server ''A'' True 2, selected (refreshSmtpQueue poolW) 0))" by blast
  with q show ?thesis by simp
qed

subsection \<open>C6: a batch one longer than the quota\<close>

text \<open>
  Claim C6, amended. A pool of one server with \<^verbatim>\<open>dailyLimit = N - 1\<close>, a count of
  today of 0 when \<^verbatim>\<open>sendBulkEmails\<close> is called, and a batch of \<open>N \<ge> 1\<close> tasks.
  Provided that

  \<^item> every read of the database that the batch awaits is answered: the refresh that opens
    it, the count query of each of the \<open>N\<close> tasks, and the count query of the
    \<^verbatim>\<open>catch\<close> block of the last task;
  \<^item> the send and the write of the log entry of each of the first \<open>N - 1\<close> tasks succeed;
  \<^item> no other writer adds, during those sends, an entry with status \<^verbatim>\<open>sent\<close> for that
    server (entries for other servers and entries with another status do not matter);
  \<^item> each of those \<open>N + 1\<close> count queries is made on the local day on which the batch
    was called, whatever the time the calls before it took,

  the batch writes \<open>N - 1\<close> entries, all \<^verbatim>\<open>sent\<close> and all for that server, one for each
  task but the last, and they are the only entries of that kind added to the log; it hands
  those \<open>N - 1\<close> messages to the transport, and ends with the error "Daily sending limit
  reached for all SMTP configurations".
\<close>

theorem single_server_batch_stops_at_quota:
  assumes pool: "smtpConfigs w0 = [s]" and limit: "dailyLimit s = int N - 1"
    and n: "length emails = N" and pos: "1 \<le> N"
    and fresh: "todayCount w0 s = 0"
    and reads: "\<forall>k<N + 2. readResult e (readCalls w0 + k) = None"
    and send: "\<forall>k<N - 1. sendMailResult e (length (sendMailCalls w0) + k) = None"
    and logs: "\<forall>k<N - 1. logEmailResult e (logEmailCalls w0 + k) = None"
    and others: "\<forall>k<N - 1. \<forall>l\<in>set (foreignWrites e (length (sendMailCalls w0) + k)). \<not> countsFor s l"
    and begun: "startOfDay w0 \<le> clock w0"
    and day: "\<forall>k<N. localMidnight w0 (taskStart e (started e w0) k) = startOfDay w0"
    and dayH: "localMidnight w0 (taskStart e (started e w0) (N - 1) + readTime e (readCalls w0 + N)) =
               startOfDay w0"
  shows "\<exists>w'. sendBulkEmails e campaign emails w0 = Some (Inl (AllQuotasExhausted, w')) \<and>
           emailLogs w' = emailLogs w0 @ batchDocs e s campaign (started e w0) 0 (butlast emails) \<and>
           filter (countsFor s) (batchDocs e s campaign (started e w0) 0 (butlast emails)) =
             sentDocs e s campaign (started e w0) 0 (butlast emails) \<and>
           length (sentDocs e s campaign (started e w0) 0 (butlast emails)) = N - 1 \<and>
           map subscriberId (sentDocs e s campaign (started e w0) 0 (butlast emails)) =
             map email_subscriberId (butlast emails) \<and>
           map snd (sendMailCalls w') =
             map snd (sendMailCalls w0) @ map (envelope s) (butlast emails)"
proof -
  let ?w = "started e w0" and ?d = "startOfDay w0" and ?tasks = "butlast emails"
  have ne: "emails \<noteq> []" using n pos by auto
  have split: "emails = ?tasks @ [last emails]" using ne by simp
  have len: "length ?tasks = N - 1" using n by simp
  have r0: "readResult e (readCalls w0) = None" using reads by force
  have q: "smtpQueue ?w = [s]" "currentSmtpIndex ?w = 0"
    using pool by (simp_all add: started_fields refreshSmtpQueue_single)
  have f: "readCalls ?w = readCalls w0 + 1" "sendMailCalls ?w = sendMailCalls w0"
    "logEmailCalls ?w = logEmailCalls w0" "localMidnight ?w = localMidnight w0"
    "emailLogs ?w = emailLogs w0"
    by (simp_all add: started_fields)
  have reads1: "\<forall>k<length ?tasks. readResult e (readCalls ?w + k) = None"
  proof (intro allI impI)
    fix k assume "k < length ?tasks"
    then have "Suc k < N + 2" using len by simp
    with reads have "readResult e (readCalls w0 + Suc k) = None" by blast
    then show "readResult e (readCalls ?w + k) = None" by (simp add: f)
  qed
  have send1: "\<forall>k<length ?tasks. sendMailResult e (length (sendMailCalls ?w) + k) = None"
    using send len by (simp add: f)
  have logs1: "\<forall>k<length ?tasks. logEmailResult e (logEmailCalls ?w + k) = None"
    using logs len by (simp add: f)
  have others1: "\<forall>k<length ?tasks.
      \<forall>l\<in>set (foreignWrites e (length (sendMailCalls ?w) + k)). \<not> countsFor s l"
    using others len by (simp add: f)
  have days1: "\<forall>k<length ?tasks. localMidnight ?w (taskStart e ?w k) = ?d"
    using day len by (simp add: f)
  have begun1: "?d \<le> clock ?w" using begun by (simp add: started_fields)
  have cnt0: "countDocuments (smtp_id s) ?d (emailLogs ?w) = 0"
    using fresh by (simp add: todayCount_eval f)
  have room: "int (countDocuments (smtp_id s) ?d (emailLogs ?w)) + int (length ?tasks) \<le> dailyLimit s"
    using cnt0 limit len pos by simp
  from sendLoop_single_server_all_sent [OF q reads1 send1 logs1 others1 days1 begun1 room, of campaign]
  obtain w1 where w1: "sendLoop e campaign ?tasks ?w = Some (Inr ((), w1))"
    "smtpQueue w1 = [s]" "currentSmtpIndex w1 = 0"
    "localMidnight w1 = localMidnight ?w"
    "clock w1 = taskStart e ?w (length ?tasks)"
    "readCalls w1 = readCalls ?w + length ?tasks"
    "emailLogs w1 = emailLogs ?w @ batchDocs e s campaign ?w 0 ?tasks"
    "map snd (sendMailCalls w1) = map snd (sendMailCalls ?w) @ map (envelope s) ?tasks"
    "countDocuments (smtp_id s) ?d (emailLogs w1) =
       countDocuments (smtp_id s) ?d (emailLogs ?w) + length ?tasks" by blast
  let ?w' = "answered e (exhausted (answered e (exhausted w1)))"
  have c1: "currentSmtpIndex w1 < length (smtpQueue w1)" using w1 by simp
  have "N - 1 < N" using pos by simp
  with day have "localMidnight w0 (taskStart e ?w (N - 1)) = ?d" by blast
  then have d1: "startOfDay w1 = ?d" by (simp add: startOfDay_def w1(4,5) f n)
  have full: "\<not> underQuota w1 s"
    using w1(9) cnt0 n limit pos by (simp add: underQuota_def todayCount_eval d1)
  have ex: "\<forall>c\<in>set (smtpQueue w1). \<not> underQuota w1 c" using full w1 by simp
  have calls: "readCalls w1 = readCalls w0 + N" using pos by (simp add: w1(6) f n)
  have ra: "readResult e (readCalls w1) = None" using reads by (simp add: calls)
  have rb: "readResult e (readCalls w1 + 1) = None"
  proof -
    have "N + 1 < N + 2" by simp
    with reads have "readResult e (readCalls w0 + (N + 1)) = None" by blast
    then show ?thesis by (simp add: calls)
  qed
  have dh: "localMidnight w1 (clock w1 + readTime e (readCalls w1)) = localMidnight w1 (clock w1)"
    using dayH d1 by (simp add: startOfDay_def w1(4,5) f n calls)
  have final: "processEmail e campaign (last emails) w1 = Some (Inl (AllQuotasExhausted, ?w'))"
    by (rule processEmail_exhausted_twice [OF c1 ex ra rb dh])
  have "sendLoop e campaign (?tasks @ [last emails]) ?w = Some (Inl (AllQuotasExhausted, ?w'))"
    using w1(1) final by (simp add: sendLoop_append)
  then have "sendBulkEmails e campaign (?tasks @ [last emails]) w0 =
          Some (Inl (AllQuotasExhausted, ?w'))"
    by (simp only: sendBulkEmails_started [OF r0])
  then have run: "sendBulkEmails e campaign emails w0 = Some (Inl (AllQuotasExhausted, ?w'))"
    by (simp only: split [symmetric])
  have logs': "emailLogs ?w' = emailLogs w0 @ batchDocs e s campaign ?w 0 ?tasks"
    by (simp add: answered_exhausted_fields w1(7) f)
  have sends': "map snd (sendMailCalls ?w') =
             map snd (sendMailCalls w0) @ map (envelope s) ?tasks"
    by (simp add: answered_exhausted_fields w1(8) f)
  have counted: "filter (countsFor s) (batchDocs e s campaign ?w 0 ?tasks) =
                 sentDocs e s campaign ?w 0 ?tasks"
    by (rule batchDocs_counted) (use others1 in simp)
  from run logs' sends' counted len show ?thesis
    by (intro exI [of _ ?w']) (simp add: sentDocs_length sentDocs_subscribers)
qed

text \<open>
  The theorem at \<open>N = 3\<close>, while other writers add an entry for another server and a
  \<^verbatim>\<open>failed\<close> entry for this one: two \<^verbatim>\<open>sent\<close> entries for the server, for the first two
  tasks, and the error.
\<close>

theorem single_server_batch_stops_at_quota_witness:
  "\<exists>w'. sendBulkEmails bystanderEnv ''c1'' [task ''s1'', task ''s2'', task ''s3''] quotaW =
          Some (Inl (AllQuotasExhausted, w')) \<and>
        map smtpConfigId (emailLogs w') = [''B'', ''A'', ''A'', ''A''] \<and>
        map status (emailLogs w') = [''sent'', ''failed'', ''sent'', ''sent''] \<and>
        map subscriberId (emailLogs w') = [''s0'', ''s0'', ''s1'', ''s2''] \<and>
        map sentAt (emailLogs w') = [1100, 1200, 1310, 3636] \<and>
        length (sendMailCalls w') = 2"
proof -
  let ?e = bystanderEnv and ?A = "server ''A'' True 2"
  have steady: "taskStart ?e (started ?e quotaW) k = 1005 + k * 2326" for k
    by (induction k)
       (simp_all add: quotaW_started bystanderEnv_simps RATE_LIMIT_DELAY_def)
  have t: "todayCount quotaW ?A = 0"
    by (simp add: todayCount_eval quotaW_fields countDocuments_def)
  have l: "dailyLimit ?A = int 3 - 1" by (simp add: server_simps)
  have n: "length [task ''s1'', task ''s2'', task ''s3''] = 3" by simp
  have reads: "\<forall>k<3 + 2. readResult ?e (readCalls quotaW + k) = None"
    and send: "\<forall>k<3 - 1. sendMailResult ?e (length (sendMailCalls quotaW) + k) = None"
    and logs: "\<forall>k<3 - 1. logEmailResult ?e (logEmailCalls quotaW + k) = None"
    by (simp_all add: bystanderEnv_simps)
  have others: "\<forall>k<3 - 1. \<forall>l\<in>set (foreignWrites ?e (length (sendMailCalls quotaW) + k)).
                  \<not> countsFor ?A l"
    by (auto simp add: bystanderEnv_simps quotaW_fields countsFor_def sentDoc_simps server_simps)
  have begun: "startOfDay quotaW \<le> clock quotaW"
    by (simp add: startOfDay_def quotaW_fields days24_le)
  have day: "\<forall>k<3. localMidnight quotaW (taskStart ?e (started ?e quotaW) k) = startOfDay quotaW"
    by (simp add: steady startOfDay_def quotaW_fields days24_first)
  have dayH: "localMidnight quotaW (taskStart ?e (started ?e quotaW) (3 - 1) +
                readTime ?e (readCalls quotaW + 3)) = startOfDay quotaW"
    by (simp add: steady startOfDay_def quotaW_fields bystanderEnv_simps days24_first)
  from single_server_batch_stops_at_quota [OF quotaW_fields(1) l n _ t reads send logs others
      begun day dayH, of "''c1''"]
  obtain w' where w': "sendBulkEmails ?e ''c1'' [task ''s1'', task ''s2'', task ''s3''] quotaW =
          Some (Inl (AllQuotasExhausted, w'))"
    "emailLogs w' = emailLogs quotaW @
       batchDocs ?e ?A ''c1'' (started ?e quotaW) 0 (butlast [task ''s1'', task ''s2'', task ''s3''])"
    "map snd (sendMailCalls w') = map snd (sendMailCalls quotaW) @
       map (envelope ?A) (butlast [task ''s1'', task ''s2'', task ''s3''])"
    by auto
  have "length (map snd (sendMailCalls w')) = 2" by (simp add: w'(3) quotaW_fields)
  then have sends: "length (sendMailCalls w') = 2" by simp
  have docs: "emailLogs w' =
      [sentDoc ''B'' 1100, (sentDoc ''A'' 1200)\<lparr>status := ''failed'', error := Some ''refused''\<rparr>,
       sentDocAt ?e ?A ''c1'' (started ?e quotaW) 0 (task ''s1''),
       sentDocAt ?e ?A ''c1'' (started ?e quotaW) (Suc 0) (task ''s2'')]"
    by (simp add: w'(2) quotaW_fields quotaW_started bystanderEnv_simps)
  have times: "sentAt (sentDocAt ?e ?A ''c1'' (started ?e quotaW) 0 (task ''s1'')) = 1310"
    "sentAt (sentDocAt ?e ?A ''c1'' (started ?e quotaW) (Suc 0) (task ''s2'')) = 3636"
    by (simp_all add: sentDocAt_fields quotaW_started bystanderEnv_simps RATE_LIMIT_DELAY_def)
  from w'(1) sends show ?thesis
    by (intro exI [of _ w'])
       (simp add: docs times sentDocAt_fields(1-4) sentDoc_simps server_simps task_simps)
qed

text \<open>
  Claim C6 as stated fails, in four ways; in each run the pool is one server with
  \<^verbatim>\<open>dailyLimit = N - 1\<close>, the count of today starts at 0 and every send that is made
  succeeds. First run, \<open>N = 3\<close>, the batch starts one second before local midnight: the
  count restarts at midnight, all three messages are sent and logged, and the batch
  returns without an error. Second run, \<open>N = 2\<close>, the write of the first \<^verbatim>\<open>sent\<close>
  entry throws: the first message is logged as failed, both messages are sent, and the
  batch returns without an error. Third run, \<open>N = 3\<close>, another writer records a message
  sent by the server during the first send: the batch ends with the error after one
  message. Fourth run, \<open>N = 2\<close>, the count query of the first task rejects: the first
  task is logged as failed and never sent, the second is sent, and the batch returns
  without an error.
\<close>

theorem single_server_batch_counterexample:
  "(todayCount midnightW (server ''A'' True 2) = 0 \<and>
   thrownBy (sendBulkEmails okEnv ''c1'' [task ''s1'', task ''s2'', task ''s3''] midnightW) = None \<and>
   map status (finalLogs (sendBulkEmails okEnv ''c1'' [task ''s1'', task ''s2'', task ''s3''] midnightW)) =
   [''sent'', ''sent'', ''sent''] \<and>
   map sentAt (finalLogs (sendBulkEmails okEnv ''c1'' [task ''s1'', task ''s2'', task ''s3''] midnightW)) =
   [86399310, 86401636, 86403962] \<and>
   length (finalSends (sendBulkEmails okEnv ''c1'' [task ''s1'', task ''s2'', task ''s3''] midnightW)) = 3) \<and>
  (sendMailResult logFlakyEnv 0 = None \<and> sendMailResult logFlakyEnv 1 = None \<and>
   todayCount oneLeftW (server ''A'' True 1) = 0 \<and>
   thrownBy (sendBulkEmails logFlakyEnv ''c1'' [task ''s1'', task ''s2''] oneLeftW) = None \<and>
   map status (finalLogs (sendBulkEmails logFlakyEnv ''c1'' [task ''s1'', task ''s2''] oneLeftW)) =
   [''failed'', ''sent''] \<and>
   length (finalSends (sendBulkEmails logFlakyEnv ''c1'' [task ''s1'', task ''s2''] oneLeftW)) = 2) \<and>
  (todayCount quotaW (server ''A'' True 2) = 0 \<and>
   thrownBy (sendBulkEmails crowdEnv ''c1'' [task ''s1'', task ''s2'', task ''s3''] quotaW) =
   Some AllQuotasExhausted \<and>
   map subscriberId (finalLogs (sendBulkEmails crowdEnv ''c1'' [task ''s1'', task ''s2'', task ''s3''] quotaW)) =
   [''s0'', ''s1''] \<and>
   length (finalSends (sendBulkEmails crowdEnv ''c1'' [task ''s1'', task ''s2'', task ''s3''] quotaW)) = 1) \<and>
  (todayCount oneLeftW (server ''A'' True 1) = 0 \<and>
   thrownBy (sendBulkEmails readDownEnv ''c1'' [task ''s1'', task ''s2''] oneLeftW) = None \<and>
   map status (finalLogs (sendBulkEmails readDownEnv ''c1'' [task ''s1'', task ''s2''] oneLeftW)) =
   [''failed'', ''sent''] \<and>
   map error (finalLogs (sendBulkEmails readDownEnv ''c1'' [task ''s1'', task ''s2''] oneLeftW)) =
   [Some ''query failed'', None] \<and>
   map snd (finalSends (sendBulkEmails readDownEnv ''c1'' [task ''s1'', task ''s2''] oneLeftW)) =
   [envelope (server ''A'' True 1) (task ''s2'')])"
  by (rule conjI [OF midnight_run conjI [OF unlogged_send_run conjI [OF crowded_run rejected_query_run]]])

subsection \<open>C7: the server named in a failed entry\<close>

text \<open>
  Claim C7. When the send of a task throws and the \<^verbatim>\<open>catch\<close> block completes, the
  message was handed to the transport of the server the \<^verbatim>\<open>try\<close> block selected, and
  the entry written has status \<^verbatim>\<open>failed\<close> and names the server that the call of
  \<^verbatim>\<open>getNextAvailableSmtp\<close> in the \<^verbatim>\<open>catch\<close> block returned. There is a run in
  which the two servers differ: the server of the attempt reaches its limit, by another
  writer's document, while the send is in flight. (When the second call finds the log
  and the day as the first found them, the two servers are the same:
  \<open>reselection_same_server\<close>.)
\<close>

theorem failed_entry_names_fresh_selection:
  "(\<forall>e campaign em w c w1 x c' w2.
      awaitNextAvailableSmtp e w = Some (Inr (c, w1)) \<and>
      sendMailResult e (length (sendMailCalls w)) = Some x \<and>
      awaitNextAvailableSmtp e (attempted e c em w1) = Some (Inr (c', w2)) \<and>
      logEmailResult e (logEmailCalls w) = None \<longrightarrow>
        (\<exists>w'. processEmail e campaign em w = Some (Inr ((), w')) \<and>
              sendMailCalls w' = sendMailCalls w @ [(fst (getTransport c w1), envelope c em)] \<and>
              status (last (emailLogs w')) = ''failed'' \<and>
              subscriberId (last (emailLogs w')) = email_subscriberId em \<and>
              smtpConfigId (last (emailLogs w')) = smtp_id c')) \<and>
   (\<exists>e em w c w1 x c' w2.
      awaitNextAvailableSmtp e w = Some (Inr (c, w1)) \<and>
      sendMailResult e (length (sendMailCalls w)) = Some x \<and>
      awaitNextAvailableSmtp e (attempted e c em w1) = Some (Inr (c', w2)) \<and>
      logEmailResult e (logEmailCalls w) = None \<and>
      smtp_id c' \<noteq> smtp_id c)"
proof (intro conjI allI impI)
  fix e campaign em w c w1 x c' w2
  assume h: "awaitNextAvailableSmtp e w = Some (Inr (c, w1)) \<and>
      sendMailResult e (length (sendMailCalls w)) = Some x \<and>
      awaitNextAvailableSmtp e (attempted e c em w1) = Some (Inr (c', w2)) \<and>
      logEmailResult e (logEmailCalls w) = None"
  let ?a = "attempted e c em w1"
  let ?w' = "delay e (RATE_LIMIT_DELAY * 2) (logged e (failedEntry c' campaign em x) w2)"
  from h have sel: "awaitNextAvailableSmtp e w = Some (Inr (c, w1))"
    and rej: "sendMailResult e (length (sendMailCalls w)) = Some x"
    and resel: "awaitNextAvailableSmtp e ?a = Some (Inr (c', w2))"
    and ok: "logEmailResult e (logEmailCalls w) = None" by simp_all
  have f1: "selectionOnly e w w1" by (rule awaitNextAvailableSmtp_returns_frame [OF sel])
  have f2: "selectionOnly e ?a w2" by (rule awaitNextAvailableSmtp_returns_frame [OF resel])
  have "logEmailCalls ?a = logEmailCalls w" using f1 by (simp add: attempted_fields selectionOnly_def)
  with ok have ok': "logEmailResult e (logEmailCalls ?a) = None" by simp
  have p: "processEmail e campaign em w = Some (Inr ((), ?w'))"
    by (simp add: processEmail_caught [OF trySend_send_rejects [OF sel rej]]
          catchError_completes [OF resel ok'])
  have "sendMailCalls ?w' = sendMailCalls w @ [(fst (getTransport c w1), envelope c em)]"
    using f1 f2 by (simp add: delay_fields logged_fields attempted_fields selectionOnly_def)
  with p show "\<exists>w'. processEmail e campaign em w = Some (Inr ((), w')) \<and>
              sendMailCalls w' = sendMailCalls w @ [(fst (getTransport c w1), envelope c em)] \<and>
              status (last (emailLogs w')) = ''failed'' \<and>
              subscriberId (last (emailLogs w')) = email_subscriberId em \<and>
              smtpConfigId (last (emailLogs w')) = smtp_id c'"
    by (intro exI [of _ ?w'])
       (simp add: delay_fields logged_fields stored_fields failedEntry_fields)
next
  from race_run(1-4) have "awaitNextAvailableSmtp raceEnv (started raceEnv raceW) =
        Some (Inr (server ''A'' True 1, answered raceEnv (selected (started raceEnv raceW) 0))) \<and>
      sendMailResult raceEnv (length (sendMailCalls (started raceEnv raceW))) =
        Some (JsError ''Connection timeout'') \<and>
      awaitNextAvailableSmtp raceEnv (attempted raceEnv (server ''A'' True 1) (task ''s1'')
          (answered raceEnv (selected (started raceEnv raceW) 0))) =
        Some (Inr (server ''B'' False 5,
          answered raceEnv (selected (attempted raceEnv (server ''A'' True 1) (task ''s1'')
            (answered raceEnv (selected (started raceEnv raceW) 0))) 1))) \<and>
      logEmailResult raceEnv (logEmailCalls (started raceEnv raceW)) = None \<and>
      smtp_id (server ''B'' False 5) \<noteq> smtp_id (server ''A'' True 1)"
    by (simp add: server_simps)
  then show "\<exists>e em w c w1 x c' w2.
      awaitNextAvailableSmtp e w = Some (Inr (c, w1)) \<and>
      sendMailResult e (length (sendMailCalls w)) = Some x \<and>
      awaitNextAvailableSmtp e (attempted e c em w1) = Some (Inr (c', w2)) \<and>
      logEmailResult e (logEmailCalls w) = None \<and>
      smtp_id c' \<noteq> smtp_id c"
    by blast
qed

text \<open>
  The theorem at the run of its second part: the message went to the transport of server
  A, the entry names server B.
\<close>

theorem failed_entry_names_fresh_selection_witness:
  "\<exists>w'. processEmail raceEnv ''c1'' (task ''s1'') (started raceEnv raceW) = Some (Inr ((), w')) \<and>
        map (t_host \<circ> fst) (sendMailCalls w') = [''A.example.org''] \<and>
        status (last (emailLogs w')) = ''failed'' \<and>
        smtpConfigId (last (emailLogs w')) = ''B''"
proof -
  let ?w = "started raceEnv raceW"
  have h: "awaitNextAvailableSmtp raceEnv ?w =
        Some (Inr (server ''A'' True 1, answered raceEnv (selected ?w 0))) \<and>
      sendMailResult raceEnv (length (sendMailCalls ?w)) = Some (JsError ''Connection timeout'') \<and>
      awaitNextAvailableSmtp raceEnv
          (attempted raceEnv (server ''A'' True 1) (task ''s1'') (answered raceEnv (selected ?w 0))) =
        Some (Inr (server ''B'' False 5,
          answered raceEnv (selected (attempted raceEnv (server ''A'' True 1) (task ''s1'')
            (answered raceEnv (selected ?w 0))) 1))) \<and>
      logEmailResult raceEnv (logEmailCalls ?w) = None"
    using race_run(1-4) by simp
  have "\<forall>e campaign em w c w1 x c' w2.
      awaitNextAvailableSmtp e w = Some (Inr (c, w1)) \<and>
      sendMailResult e (length (sendMailCalls w)) = Some x \<and>
      awaitNextAvailableSmtp e (attempted e c em w1) = Some (Inr (c', w2)) \<and>
      logEmailResult e (logEmailCalls w) = None \<longrightarrow>
        (\<exists>w'. processEmail e campaign em w = Some (Inr ((), w')) \<and>
              sendMailCalls w' = sendMailCalls w @ [(fst (getTransport c w1), envelope c em)] \<and>
              status (last (emailLogs w')) = ''failed'' \<and>
              subscriberId (last (emailLogs w')) = email_subscriberId em \<and>
              smtpConfigId (last (emailLogs w')) = smtp_id c')"
    using failed_entry_names_fresh_selection by (rule conjunct1)
  from this [rule_format, OF h, of "''c1''"]
  obtain w' where w': "processEmail raceEnv ''c1'' (task ''s1'') ?w = Some (Inr ((), w'))"
    "sendMailCalls w' = sendMailCalls ?w @
       [(fst (getTransport (server ''A'' True 1) (answered raceEnv (selected ?w 0))),
         envelope (server ''A'' True 1) (task ''s1''))]"
    "status (last (emailLogs w')) = ''failed''"
    "smtpConfigId (last (emailLogs w')) = smtp_id (server ''B'' False 5)"
    by blast
  then show ?thesis
    by (intro exI [of _ w']) (simp add: raceW_started race_run(5) server_simps)
qed

subsection \<open>C8: pacing\<close>

text \<open>
  Claim C8, amended. After every task that does not end the batch there is exactly one
  delay before the next task starts, the last step of the task, so that the next task
  starts no earlier than that delay after this one started: the pacing delay, 2000 ms,
  when the \<^verbatim>\<open>try\<close> block ran to its end (the selection returned a server, the send and
  the write of the \<^verbatim>\<open>sent\<close> entry succeeded), and twice the pacing delay in every other
  case, that is when the \<^verbatim>\<open>catch\<close> block handled the task, whether the selection
  threw, the send threw or the write of the \<^verbatim>\<open>sent\<close> entry did.
\<close>

theorem pacing_after_each_task:
  assumes ret: "processEmail e campaign em w = Some (Inr ((), w'))"
  shows "delays w' = delays w @ [if tryCompletes e w then RATE_LIMIT_DELAY else RATE_LIMIT_DELAY * 2] \<and>
         (\<exists>wb. w' = delay e (if tryCompletes e w then RATE_LIMIT_DELAY else RATE_LIMIT_DELAY * 2) wb \<and>
               delays wb = delays w \<and> clock w \<le> clock wb) \<and>
         clock w + (if tryCompletes e w then RATE_LIMIT_DELAY else RATE_LIMIT_DELAY * 2) \<le> clock w' \<and>
         RATE_LIMIT_DELAY = 2000 \<and>
         sendLoop e campaign (em # rest) w = sendLoop e campaign rest w'"
proof -
  let ?d = "if tryCompletes e w then RATE_LIMIT_DELAY else RATE_LIMIT_DELAY * 2"
  have loop: "sendLoop e campaign (em # rest) w = sendLoop e campaign rest w'"
    using ret by simp
  have caught: "\<exists>wb. w' = delay e (RATE_LIMIT_DELAY * 2) wb \<and> delays wb = delays w \<and>
                     clock w \<le> clock wb"
    if t: "trySend e campaign em w = Some (Inl (x, wa))"
      and f: "delays wa = delays w" "clock w \<le> clock wa" for x wa
  proof -
    from ret have "catchError e campaign em x wa = Some (Inr ((), w'))"
      by (simp add: processEmail_caught [OF t])
    from catchError_returns [OF this] f show ?thesis by auto
  qed
  have main: "\<exists>wb. w' = delay e ?d wb \<and> delays wb = delays w \<and> clock w \<le> clock wb"
  proof (cases e w rule: awaitNextAvailableSmtp_result)
    case (throws x w1)
    have f: "selectionOnly e w w1" by (rule awaitNextAvailableSmtp_throws_frame [OF throws])
    have "\<not> tryCompletes e w" by (simp add: tryCompletes_def throws observers)
    moreover from caught [OF trySend_selection_throws [OF throws]] f
    have "\<exists>wb. w' = delay e (RATE_LIMIT_DELAY * 2) wb \<and> delays wb = delays w \<and> clock w \<le> clock wb"
      by (simp add: selectionOnly_def)
    ultimately show ?thesis by simp
  next
    case (returns c w1)
    have f: "selectionOnly e w w1" by (rule awaitNextAvailableSmtp_returns_frame [OF returns])
    have sel: "thrownBy (awaitNextAvailableSmtp e w) = None" by (simp add: returns observers)
    show ?thesis
    proof (cases "sendMailResult e (length (sendMailCalls w))")
      case (Some x)
      then have "\<not> tryCompletes e w" by (simp add: tryCompletes_def)
      moreover from caught [OF trySend_send_rejects [OF returns Some]] f
      have "\<exists>wb. w' = delay e (RATE_LIMIT_DELAY * 2) wb \<and> delays wb = delays w \<and> clock w \<le> clock wb"
        by (simp add: attempted_fields selectionOnly_def)
      ultimately show ?thesis by simp
    next
      case None
      show ?thesis
      proof (cases "logEmailResult e (logEmailCalls w)")
        case (Some x)
        then have "\<not> tryCompletes e w" by (simp add: tryCompletes_def)
        moreover from caught [OF trySend_log_rejects [OF returns None Some]] f
        have "\<exists>wb. w' = delay e (RATE_LIMIT_DELAY * 2) wb \<and> delays wb = delays w \<and> clock w \<le> clock wb"
          by (simp add: rejected_fields attempted_fields selectionOnly_def)
        ultimately show ?thesis by simp
      next
        case ok: None
        let ?wb = "logged e (sentEntry c campaign em) (attempted e c em w1)"
        have "tryCompletes e w" using sel None ok by (simp add: tryCompletes_def)
        moreover from ret processEmail_completes [OF trySend_completes [OF returns None ok], of campaign em]
        have "w' = delay e RATE_LIMIT_DELAY ?wb" by simp
        moreover have "delays ?wb = delays w" "clock w \<le> clock ?wb"
          using f by (simp_all add: logged_fields attempted_fields selectionOnly_def)
        ultimately show ?thesis by auto
      qed
    qed
  qed
  then obtain wb where wb: "w' = delay e ?d wb" "delays wb = delays w" "clock w \<le> clock wb"
    by blast
  then have "delays w' = delays w @ [?d]" "clock w + ?d \<le> clock w'"
    by (simp_all add: delay_fields)
  with main loop show ?thesis by (simp add: RATE_LIMIT_DELAY_def)
qed

text \<open>
  The theorem at a task that is sent and logged: one delay of 2000 ms, and the next task
  starts at least 2000 ms after this one.
\<close>

theorem pacing_after_each_task_witness:
  "tryCompletes okEnv (started okEnv freshW) \<and>
   delays (sentStep okEnv ''c1'' (task ''s1'') (started okEnv freshW)) = [2000] \<and>
   clock (started okEnv freshW) + 2000 \<le>
     clock (sentStep okEnv ''c1'' (task ''s1'') (started okEnv freshW))"
proof -
  let ?w = "started okEnv freshW"
  have c: "currentSmtpIndex ?w < length (smtpQueue ?w)" by (simp add: freshW_started)
  have u: "underQuota ?w (smtpQueue ?w ! currentSmtpIndex ?w)"
    by (simp add: underQuota_eval freshW_started server_simps)
  have r: "readResult okEnv (readCalls ?w) = None"
    and res: "sendMailResult okEnv (length (sendMailCalls ?w)) = None"
    and ok: "logEmailResult okEnv (logEmailCalls ?w) = None"
    by (simp_all add: okEnv_simps)
  have t: "tryCompletes okEnv ?w"
    by (simp add: tryCompletes_def awaitNextAvailableSmtp_at_cursor [OF c u r] observers res ok)
  from pacing_after_each_task [OF processEmail_sent_at_cursor [OF c u r res ok],
      of "''c1''" "task ''s1''" "[]"] t
  show ?thesis by (simp add: freshW_started)
qed

text \<open>
  The claim as stated fails: the send of the first task succeeds and the write of its
  \<^verbatim>\<open>sent\<close> entry throws. The task is handled by the \<^verbatim>\<open>catch\<close> block and the wait
  before the second task is 4000 ms, not the pacing delay.
\<close>

theorem sent_but_unlogged_waits_twice_counterexample:
  "sendMailResult logFlakyEnv 0 = None \<and>
   thrownBy (sendBulkEmails logFlakyEnv ''c1'' [task ''s1'', task ''s2''] freshW) = None \<and>
   length (finalSends (sendBulkEmails logFlakyEnv ''c1'' [task ''s1'', task ''s2''] freshW)) = 2 \<and>
   map status (finalLogs (sendBulkEmails logFlakyEnv ''c1'' [task ''s1'', task ''s2''] freshW)) =
     [''failed'', ''sent''] \<and>
   finalDelays (sendBulkEmails logFlakyEnv ''c1'' [task ''s1'', task ''s2''] freshW) = [4000, 2000]"
proof -
  let ?e = logFlakyEnv and ?x = "JsError ''write failed''"
  let ?w = "started ?e freshW" and ?A = "server ''A'' True 5"
  let ?a = "rejected ?e (attempted ?e ?A (task ''s1'') (answered ?e (selected ?w 0)))"
  let ?w1 = "failedStep ?e ''c1'' (task ''s1'') ?x ?a"
  let ?w2 = "sentStep ?e ''c1'' (task ''s2'') ?w1"
  have r0: "readResult ?e (readCalls freshW) = None" by (simp add: logFlakyEnv_simps)
  have c: "currentSmtpIndex ?w < length (smtpQueue ?w)" by (simp add: freshW_started)
  have u: "underQuota ?w (smtpQueue ?w ! currentSmtpIndex ?w)"
    by (simp add: underQuota_eval freshW_started server_simps)
  have r: "readResult ?e (readCalls ?w) = None" by (simp add: logFlakyEnv_simps)
  have sel: "awaitNextAvailableSmtp ?e ?w = Some (Inr (?A, answered ?e (selected ?w 0)))"
    using awaitNextAvailableSmtp_at_cursor [OF c u r] by (simp add: freshW_started)
  have res: "sendMailResult ?e (length (sendMailCalls ?w)) = None"
    by (simp add: logFlakyEnv_simps)
  have rej: "logEmailResult ?e (logEmailCalls ?w) = Some ?x"
    by (simp add: logFlakyEnv_simps freshW_started)
  have t: "trySend ?e ''c1'' (task ''s1'') ?w = Some (Inl (?x, ?a))"
    by (rule trySend_log_rejects [OF sel res rej])
  have a: "currentSmtpIndex ?a = 0" "smtpQueue ?a = [?A]" "emailLogs ?a = []"
    "length (sendMailCalls ?a) = 1" "logEmailCalls ?a = 1" "delays ?a = []"
    by (simp_all add: rejected_fields attempted_selected_fields [OF c] freshW_started
          logFlakyEnv_simps)
  have ca: "currentSmtpIndex ?a < length (smtpQueue ?a)" by (simp add: a)
  have ua: "underQuota ?a (smtpQueue ?a ! currentSmtpIndex ?a)"
    by (simp add: underQuota_eval a server_simps)
  have ra: "readResult ?e (readCalls ?a) = None" by (simp add: logFlakyEnv_simps)
  have ok: "logEmailResult ?e (logEmailCalls ?a) = None"
    by (simp add: a logFlakyEnv_simps)
  have p1: "processEmail ?e ''c1'' (task ''s1'') ?w = Some (Inr ((), ?w1))"
    by (simp add: processEmail_caught [OF t] catchError_logged_at_cursor [OF ca ua ra ok])
  have w1: "currentSmtpIndex ?w1 = 0" "smtpQueue ?w1 = [?A]"
    "map status (emailLogs ?w1) = [''failed'']"
    "length (sendMailCalls ?w1) = 1" "logEmailCalls ?w1 = 2" "delays ?w1 = [4000]"
    by (simp_all add: failedStep_fields [OF ca] a stored_fields failedEntry_fields
          RATE_LIMIT_DELAY_def)
  have c1: "currentSmtpIndex ?w1 < length (smtpQueue ?w1)" by (simp add: w1)
  have "\<forall>l\<in>set (emailLogs ?w1). status l \<noteq> ''sent''"
    by (simp add: failedStep_fields [OF ca] a stored_fields failedEntry_fields)
  then have u1: "underQuota ?w1 (smtpQueue ?w1 ! currentSmtpIndex ?w1)"
    by (simp add: underQuota_eval w1 server_simps filter_empty_conv [THEN iffD2])
  have r1: "readResult ?e (readCalls ?w1) = None" by (simp add: logFlakyEnv_simps)
  have res1: "sendMailResult ?e (length (sendMailCalls ?w1)) = None"
    by (simp add: logFlakyEnv_simps)
  have ok1: "logEmailResult ?e (logEmailCalls ?w1) = None"
    by (simp add: w1 logFlakyEnv_simps)
  have p2: "processEmail ?e ''c1'' (task ''s2'') ?w1 = Some (Inr ((), ?w2))"
    by (rule processEmail_sent_at_cursor [OF c1 u1 r1 res1 ok1])
  have run: "sendBulkEmails ?e ''c1'' [task ''s1'', task ''s2''] freshW = Some (Inr ((), ?w2))"
    by (simp add: sendBulkEmails_started [OF r0] p1 p2)
  show ?thesis
    unfolding run
    by (simp add: observers sentStep_fields [OF c1] w1 stored_fields sentEntry_fields
          logFlakyEnv_simps RATE_LIMIT_DELAY_def)
qed

subsection \<open>C9: one transport for each identifier\<close>

text \<open>
  Claim C9. A call of \<^verbatim>\<open>getTransport\<close> for an identifier that is not in the cache
  creates one transport and caches it under the identifier; a call for a configuration
  with the same identifier, in the state the first call leaves, returns that transport
  and changes nothing. The cache of a new service agrees with the record of the
  transports created, one for each identifier, and \<^verbatim>\<open>getTransport\<close> and
  \<^verbatim>\<open>sendBulkEmails\<close> keep it so; \<^verbatim>\<open>sendBulkEmails\<close> removes or replaces no
  entry of the cache.
\<close>

theorem getTransport_one_handle_per_id:
  "(transports w (smtp_id c) = None \<longrightarrow>
      createdTransports (snd (getTransport c w)) =
        createdTransports w @ [(smtp_id c, fst (getTransport c w))] \<and>
      transports (snd (getTransport c w)) = (transports w)(smtp_id c \<mapsto> fst (getTransport c w))) \<and>
   (\<forall>c'. smtp_id c' = smtp_id c \<longrightarrow>
      getTransport c' (snd (getTransport c w)) = (fst (getTransport c w), snd (getTransport c w))) \<and>
   cacheOk (newEmailService configs logs zone now) \<and>
   (cacheOk w \<longrightarrow> cacheOk (snd (getTransport c w))) \<and>
   (\<forall>e campaign emails r.
      sendBulkEmails e campaign emails w = Some r \<longrightarrow>
        transports w \<subseteq>\<^sub>m transports (worldOf r) \<and> (cacheOk w \<longrightarrow> cacheOk (worldOf r)))"
proof (intro conjI allI impI)
  assume "transports w (smtp_id c) = None"
  then show "createdTransports (snd (getTransport c w)) =
        createdTransports w @ [(smtp_id c, fst (getTransport c w))]"
    and "transports (snd (getTransport c w)) = (transports w)(smtp_id c \<mapsto> fst (getTransport c w))"
    by (simp_all add: getTransport_miss)
next
  fix c' :: smtpConfig
  assume "smtp_id c' = smtp_id c"
  with getTransport_caches [of c w]
  show "getTransport c' (snd (getTransport c w)) = (fst (getTransport c w), snd (getTransport c w))"
    by (simp add: getTransport_hit)
next
  show "cacheOk (newEmailService configs logs zone now)"
    by (simp add: cacheOk_def newEmailService_def)
next
  assume "cacheOk w"
  then show "cacheOk (snd (getTransport c w))" by (rule cacheOk_getTransport)
next
  fix e campaign emails r
  assume "sendBulkEmails e campaign emails w = Some r"
  from sendBulkEmails_cache [OF this]
  show "transports w \<subseteq>\<^sub>m transports (worldOf r)" by (simp add: cacheKept_def)
next
  fix e campaign emails r
  assume "sendBulkEmails e campaign emails w = Some r" and "cacheOk w"
  with sendBulkEmails_cache [of e campaign emails w r]
  show "cacheOk (worldOf r)" by (simp add: cacheKept_def)
qed

text \<open>
  The theorem at a new service: the second call, for a configuration with the same
  identifier and another host, returns the transport of the first call, made for the
  first host, and one transport was created.
\<close>

theorem getTransport_one_handle_per_id_witness:
  "getTransport ((server ''A'' True 5)\<lparr>host := ''other.example.org''\<rparr>)
      (snd (getTransport (server ''A'' True 5) freshW)) =
     getTransport (server ''A'' True 5) freshW \<and>
   t_host (fst (getTransport (server ''A'' True 5) freshW)) = ''A.example.org'' \<and>
   map fst (createdTransports (snd (getTransport (server ''A'' True 5) freshW))) = [''A''] \<and>
   cacheOk (snd (getTransport (server ''A'' True 5) freshW))"
proof -
  let ?c = "server ''A'' True 5" and ?c' = "(server ''A'' True 5)\<lparr>host := ''other.example.org''\<rparr>"
  have fresh: "transports freshW (smtp_id ?c) = None" "createdTransports freshW = []"
    by (simp_all add: freshW_def newEmailService_def)
  have same: "smtp_id ?c' = smtp_id ?c" by simp
  have t: "fst (getTransport ?c freshW) = createTransport 0 ?c"
    using getTransport_first [OF fresh(1)] by (simp add: fresh)
  note inst = getTransport_one_handle_per_id [of freshW ?c "[server ''A'' True 5]" "[]" days24 1000]
  from inst fresh(1) have created: "createdTransports (snd (getTransport ?c freshW)) =
        createdTransports freshW @ [(smtp_id ?c, fst (getTransport ?c freshW))]" by blast
  from inst same have again: "getTransport ?c' (snd (getTransport ?c freshW)) =
        (fst (getTransport ?c freshW), snd (getTransport ?c freshW))" by blast
  from inst have "cacheOk (newEmailService [server ''A'' True 5] [] days24 1000)"
    and "cacheOk freshW \<longrightarrow> cacheOk (snd (getTransport ?c freshW))" by blast+
  then have ok: "cacheOk (snd (getTransport ?c freshW))" by (simp add: freshW_def)
  from created again ok t show ?thesis
    by (simp add: fresh server_simps createTransport_def server_def)
qed

subsection \<open>C10: sent, and the log write fails\<close>

text \<open>
  Claim C10, amended. When a message was handed to the transport and the write of its
  \<^verbatim>\<open>sent\<close> entry throws, the \<^verbatim>\<open>catch\<close> block handles the task, in the state where
  the message is among the sent ones and the log has no entry for it. However the task
  ends, the log then holds no \<^verbatim>\<open>sent\<close> entry for it: either nothing was added, or one
  \<^verbatim>\<open>failed\<close> entry was. When the selection of the \<^verbatim>\<open>catch\<close> block returns a server and
  its own write succeeds, the task completes and that \<^verbatim>\<open>failed\<close> entry is written, with the
  text of the error of the first write.
\<close>

theorem sent_log_failure_recorded_as_failed:
  assumes sel: "awaitNextAvailableSmtp e w = Some (Inr (c, w1))"
    and res: "sendMailResult e (length (sendMailCalls w)) = None"
    and rej: "logEmailResult e (logEmailCalls w) = Some x"
  shows "processEmail e campaign em w =
           catchError e campaign em x (rejected e (attempted e c em w1)) \<and>
         sendMailCalls (rejected e (attempted e c em w1)) =
           sendMailCalls w @ [(fst (getTransport c w1), envelope c em)] \<and>
         emailLogs (rejected e (attempted e c em w1)) =
           emailLogs w @ foreignWrites e (length (sendMailCalls w)) \<and>
         (\<forall>r. processEmail e campaign em w = Some r \<longrightarrow>
            emailLogs (worldOf r) = emailLogs w @ foreignWrites e (length (sendMailCalls w)) \<or>
            (\<exists>c'. emailLogs (worldOf r) =
                    emailLogs w @ foreignWrites e (length (sendMailCalls w)) @
                    [stored (failedEntry c' campaign em x)
                       (clock (rejected e (attempted e c em w1)) + readTime e (readCalls w + 1))])) \<and>
         (\<forall>c' w2.
            awaitNextAvailableSmtp e (rejected e (attempted e c em w1)) = Some (Inr (c', w2)) \<and>
            logEmailResult e (logEmailCalls w + 1) = None \<longrightarrow>
              (\<exists>w'. processEmail e campaign em w = Some (Inr ((), w')) \<and>
                    emailLogs w' = emailLogs w @ foreignWrites e (length (sendMailCalls w)) @
                                     [stored (failedEntry c' campaign em x) (clock w2)] \<and>
                    status (last (emailLogs w')) = ''failed'' \<and>
                    error (last (emailLogs w')) = Some (errorText x) \<and>
                    subscriberId (last (emailLogs w')) = email_subscriberId em))"
proof -
  let ?a = "rejected e (attempted e c em w1)"
  have f1: "selectionOnly e w w1" by (rule awaitNextAvailableSmtp_returns_frame [OF sel])
  have t: "trySend e campaign em w = Some (Inl (x, ?a))"
    by (rule trySend_log_rejects [OF sel res rej])
  have p: "processEmail e campaign em w = catchError e campaign em x ?a"
    by (rule processEmail_caught [OF t])
  have sends: "sendMailCalls ?a = sendMailCalls w @ [(fst (getTransport c w1), envelope c em)]"
    using f1 by (simp add: rejected_fields attempted_fields selectionOnly_def)
  have logs: "emailLogs ?a = emailLogs w @ foreignWrites e (length (sendMailCalls w))"
    using f1 by (simp add: rejected_fields attempted_fields selectionOnly_def)
  have reads: "readCalls ?a = readCalls w + 1"
    using f1 by (simp add: rejected_fields attempted_fields selectionOnly_def)
  have calls: "logEmailCalls ?a = logEmailCalls w + 1"
    using f1 by (simp add: rejected_fields attempted_fields selectionOnly_def)
  have only: "emailLogs (worldOf r) = emailLogs w @ foreignWrites e (length (sendMailCalls w)) \<or>
            (\<exists>c'. emailLogs (worldOf r) =
                    emailLogs w @ foreignWrites e (length (sendMailCalls w)) @
                    [stored (failedEntry c' campaign em x)
                       (clock ?a + readTime e (readCalls w + 1))])"
    if "processEmail e campaign em w = Some r" for r
    using catchError_logs [of e campaign em x ?a r] that by (simp add: p logs reads)
  have written: "\<exists>w'. processEmail e campaign em w = Some (Inr ((), w')) \<and>
                    emailLogs w' = emailLogs w @ foreignWrites e (length (sendMailCalls w)) @
                                     [stored (failedEntry c' campaign em x) (clock w2)] \<and>
                    status (last (emailLogs w')) = ''failed'' \<and>
                    error (last (emailLogs w')) = Some (errorText x) \<and>
                    subscriberId (last (emailLogs w')) = email_subscriberId em"
    if h: "awaitNextAvailableSmtp e ?a = Some (Inr (c', w2)) \<and>
           logEmailResult e (logEmailCalls w + 1) = None" for c' w2
  proof -
    let ?w' = "delay e (RATE_LIMIT_DELAY * 2) (logged e (failedEntry c' campaign em x) w2)"
    from h have resel: "awaitNextAvailableSmtp e ?a = Some (Inr (c', w2))"
      and ok: "logEmailResult e (logEmailCalls ?a) = None" by (simp_all add: calls)
    have f2: "selectionOnly e ?a w2" by (rule awaitNextAvailableSmtp_returns_frame [OF resel])
    have "processEmail e campaign em w = Some (Inr ((), ?w'))"
      by (simp add: p catchError_completes [OF resel ok])
    moreover have "emailLogs ?w' = emailLogs w @ foreignWrites e (length (sendMailCalls w)) @
                                     [stored (failedEntry c' campaign em x) (clock w2)]"
      using f2 logs by (simp add: delay_fields logged_fields selectionOnly_def)
    ultimately show ?thesis
      by (intro exI [of _ ?w']) (simp add: stored_fields failedEntry_fields)
  qed
  from p sends logs only written show ?thesis by blast
qed

text \<open>
  An instance: one server, the send resolves, the first write of the log throws and the
  second succeeds.
\<close>

theorem sent_log_failure_recorded_as_failed_witness:
  "\<exists>w'. processEmail logFlakyEnv ''c1'' (task ''s1'') (started logFlakyEnv freshW) =
          Some (Inr ((), w')) \<and>
        map status (emailLogs w') = [''failed''] \<and>
        map error (emailLogs w') = [Some ''write failed'']"
proof -
  let ?e = logFlakyEnv and ?x = "JsError ''write failed''"
  let ?w = "started ?e freshW" and ?A = "server ''A'' True 5"
  let ?a = "rejected ?e (attempted ?e ?A (task ''s1'') (answered ?e (selected ?w 0)))"
  have c: "currentSmtpIndex ?w < length (smtpQueue ?w)" by (simp add: freshW_started)
  have u: "underQuota ?w (smtpQueue ?w ! currentSmtpIndex ?w)"
    by (simp add: underQuota_eval freshW_started server_simps)
  have r: "readResult ?e (readCalls ?w) = None" by (simp add: logFlakyEnv_simps)
  have sel: "awaitNextAvailableSmtp ?e ?w = Some (Inr (?A, answered ?e (selected ?w 0)))"
    using awaitNextAvailableSmtp_at_cursor [OF c u r] by (simp add: freshW_started)
  have res: "sendMailResult ?e (length (sendMailCalls ?w)) = None"
    by (simp add: logFlakyEnv_simps)
  have rej: "logEmailResult ?e (logEmailCalls ?w) = Some ?x"
    by (simp add: logFlakyEnv_simps freshW_started)
  have a: "currentSmtpIndex ?a = 0" "smtpQueue ?a = [?A]" "emailLogs ?a = []"
    by (simp_all add: rejected_fields attempted_selected_fields [OF c] freshW_started
          logFlakyEnv_simps)
  have ca: "currentSmtpIndex ?a < length (smtpQueue ?a)" by (simp add: a)
  have ua: "underQuota ?a (smtpQueue ?a ! currentSmtpIndex ?a)"
    by (simp add: underQuota_eval a server_simps)
  have ra: "readResult ?e (readCalls ?a) = None" by (simp add: logFlakyEnv_simps)
  have resel: "awaitNextAvailableSmtp ?e ?a = Some (Inr (?A, answered ?e (selected ?a 0)))"
    using awaitNextAvailableSmtp_at_cursor [OF ca ua ra] by (simp add: a)
  have ok: "logEmailResult ?e (logEmailCalls ?w + 1) = None"
    by (simp add: freshW_started logFlakyEnv_simps)
  from sent_log_failure_recorded_as_failed [OF sel res rej, of "''c1''" "task ''s1''"] resel ok
  obtain w' where w': "processEmail ?e ''c1'' (task ''s1'') ?w = Some (Inr ((), w'))"
    "emailLogs w' = emailLogs ?w @ foreignWrites ?e (length (sendMailCalls ?w)) @
                      [stored (failedEntry ?A ''c1'' (task ''s1'') ?x)
                         (clock (answered ?e (selected ?a 0)))]"
    by blast
  then show ?thesis
    by (intro exI [of _ w'])
       (simp add: freshW_started logFlakyEnv_simps stored_fields failedEntry_fields)
qed

text \<open>
  The claim as stated fails: the message is handed to the transport and both writes
  throw. No entry at all is written for the task, and the batch ends with the error of the
  second write.
\<close>

theorem sent_and_never_logged_counterexample:
  "sendMailResult logDownEnv 0 = None \<and>
   thrownBy (sendBulkEmails logDownEnv ''c1'' [task ''s1'', task ''s2''] freshW) =
     Some (JsError ''database unavailable'') \<and>
   length (finalSends (sendBulkEmails logDownEnv ''c1'' [task ''s1'', task ''s2''] freshW)) = 1 \<and>
   finalLogs (sendBulkEmails logDownEnv ''c1'' [task ''s1'', task ''s2''] freshW) = []"
proof -
  let ?e = logDownEnv and ?x = "JsError ''database unavailable''"
  let ?w = "started ?e freshW" and ?A = "server ''A'' True 5"
  let ?a = "rejected ?e (attempted ?e ?A (task ''s1'') (answered ?e (selected ?w 0)))"
  have r0: "readResult ?e (readCalls freshW) = None" by (simp add: logDownEnv_simps)
  have c: "currentSmtpIndex ?w < length (smtpQueue ?w)" by (simp add: freshW_started)
  have u: "underQuota ?w (smtpQueue ?w ! currentSmtpIndex ?w)"
    by (simp add: underQuota_eval freshW_started server_simps)
  have r: "readResult ?e (readCalls ?w) = None" by (simp add: logDownEnv_simps)
  have sel: "awaitNextAvailableSmtp ?e ?w = Some (Inr (?A, answered ?e (selected ?w 0)))"
    using awaitNextAvailableSmtp_at_cursor [OF c u r] by (simp add: freshW_started)
  have res: "sendMailResult ?e (length (sendMailCalls ?w)) = None"
    by (simp add: logDownEnv_simps)
  have rej: "logEmailResult ?e (logEmailCalls ?w) = Some ?x"
    by (simp add: logDownEnv_simps)
  have t: "trySend ?e ''c1'' (task ''s1'') ?w = Some (Inl (?x, ?a))"
    by (rule trySend_log_rejects [OF sel res rej])
  have a: "currentSmtpIndex ?a = 0" "smtpQueue ?a = [?A]" "emailLogs ?a = []"
    "length (sendMailCalls ?a) = 1"
    by (simp_all add: rejected_fields attempted_selected_fields [OF c] freshW_started
          logDownEnv_simps)
  have ca: "currentSmtpIndex ?a < length (smtpQueue ?a)" by (simp add: a)
  have ua: "underQuota ?a (smtpQueue ?a ! currentSmtpIndex ?a)"
    by (simp add: underQuota_eval a server_simps)
  have ra: "readResult ?e (readCalls ?a) = None" by (simp add: logDownEnv_simps)
  have down: "logEmailResult ?e (logEmailCalls ?a) = Some ?x"
    by (simp add: logDownEnv_simps)
  have "processEmail ?e ''c1'' (task ''s1'') ?w =
          Some (Inl (?x, rejected ?e (answered ?e (selected ?a 0))))"
    by (simp add: processEmail_caught [OF t] catchError_rejected_at_cursor [OF ca ua ra down])
  then have run: "sendBulkEmails ?e ''c1'' [task ''s1'', task ''s2''] freshW =
          Some (Inl (?x, rejected ?e (answered ?e (selected ?a 0))))"
    by (simp add: sendBulkEmails_started [OF r0])
  show ?thesis
    unfolding run
    by (simp add: observers rejected_fields answered_selected_fields [OF ca]
          attempted_selected_fields [OF c] freshW_started logDownEnv_simps)
qed

end
